theory Spec2Isabelle
  imports Complex_Main
begin

section \<open>Numbers, errors and the random source\<close>

text \<open>
  The program computes in \<^verbatim>\<open>long double\<close> (\<^verbatim>\<open>typedef long double ld\<close>).
  A value of that type is a real number here; infinities and NaN are not modelled.

  In the solver the claims depend on how the operations round, so the solver's
  operations on the bracket round: \<^verbatim>\<open>long double\<close> is taken to be the x87
  extended format (a significand of 64 bits, as GCC and Clang have it on x86), and an
  operation gives the exact result rounded to the nearest such number, ties to the even
  significand.  The exponent range is not modelled: the bracket stays between
  \<open>2\<^sup>-\<^sup>6\<close> and 16.

  In the pricer the arithmetic is read as exact, and \<^verbatim>\<open>log\<close>, \<^verbatim>\<open>exp\<close>
  and \<^verbatim>\<open>sqrt\<close> are \<open>ln\<close>, \<open>exp\<close> and \<open>sqrt\<close>: the claims about the
  pricer do not depend on the rounding.
\<close>

type_synonym ld = real

text \<open>The power of two with an integer exponent.\<close>

definition pow2 :: "int \<Rightarrow> real" where
  "pow2 e = 2 powr of_int e"

text \<open>The nearest integer, the even one of the two when \<open>y\<close> is half way.\<close>

definition round_even :: "real \<Rightarrow> int" where
  "round_even y =
     (let f = \<lfloor>y\<rfloor>
      in if y - of_int f < 1 / 2 then f
         else if 1 / 2 < y - of_int f then f + 1
         else if even f then f else f + 1)"

text \<open>The exponent \<open>e\<close> with \<open>2\<^sup>e \<le> \<bar>x\<bar> < 2\<^sup>e\<^sup>+\<^sup>1\<close>.\<close>

definition binade :: "real \<Rightarrow> int" where
  "binade x = \<lfloor>log 2 \<bar>x\<bar>\<rfloor>"

text \<open>
  Rounding to a significand of 64 bits: the spacing of the numbers around \<open>x\<close> is
  \<open>2\<^sup>e\<^sup>-\<^sup>6\<^sup>3\<close>.
\<close>

definition round64 :: "real \<Rightarrow> real" where
  "round64 x =
     (if x = 0 then 0
      else pow2 (binade x - 63) * of_int (round_even (x / pow2 (binade x - 63))))"

text \<open>The operations of \<^verbatim>\<open>long double\<close> that the solver uses.\<close>

definition ld_add :: "ld \<Rightarrow> ld \<Rightarrow> ld" where
  "ld_add a b = round64 (a + b)"

definition ld_sub :: "ld \<Rightarrow> ld \<Rightarrow> ld" where
  "ld_sub a b = round64 (a - b)"

definition ld_div :: "ld \<Rightarrow> ld \<Rightarrow> ld" where
  "ld_div a b = round64 (a / b)"

text \<open>
  The literals \<^verbatim>\<open>0.03\<close> and \<^verbatim>\<open>1e-5\<close> are of type \<^verbatim>\<open>double\<close>: the
  doubles nearest to 0.03 and to 0.00001, converted to \<^verbatim>\<open>long double\<close> without
  change.
\<close>

definition lit_0_03 :: ld where
  "lit_0_03 = 1080863910568919 / 2 ^ 55"

definition lit_1e_5 :: ld where
  "lit_1e_5 = 5902958103587057 / 2 ^ 69"

text \<open>
  \<^verbatim>\<open>assert(...)\<close> aborts the process when its condition is false.  The abort is the
  one error value of the model.
\<close>

datatype error = AssertionFailed

text \<open>
  \<^verbatim>\<open>std::max(a, b)\<close> is \<^verbatim>\<open>(a < b) ? b : a\<close>.
\<close>

definition std_max :: "ld \<Rightarrow> ld \<Rightarrow> ld" where
  "std_max a b = (if a < b then b else a)"

text \<open>
  \<^verbatim>\<open>std::accumulate(first, last, init)\<close> adds the elements to \<^verbatim>\<open>init\<close> from
  left to right.
\<close>

definition accumulate :: "ld list \<Rightarrow> ld \<Rightarrow> ld" where
  "accumulate xs init = foldl (\<lambda>acc x. acc + x) init xs"

text \<open>
  The library's random machinery (\<^verbatim>\<open>std::mt19937\<close> and
  \<^verbatim>\<open>std::normal_distribution\<close>) is not part of the repository.  It is a parameter
  of the model: a generator state of any type \<open>'g\<close>, and a function that, from a
  generator state, a mean and a standard deviation, gives the value drawn and the next
  generator state.  A fresh \<^verbatim>\<open>normal_distribution\<close> object is built for every draw,
  so a draw depends on nothing else.
\<close>

type_synonym 'g normal_distribution = "'g \<Rightarrow> ld \<Rightarrow> ld \<Rightarrow> ld \<times> 'g"

text \<open>A \<^verbatim>\<open>for\<close> loop over the indices \<open>xs\<close> whose body may abort.\<close>

fun for_each :: "'a list \<Rightarrow> ('a \<Rightarrow> 's \<Rightarrow> error + 's) \<Rightarrow> 's \<Rightarrow> error + 's" where
  "for_each [] body s = Inr s"
| "for_each (x # xs) body s =
     (case body x s of Inl e \<Rightarrow> Inl e | Inr s' \<Rightarrow> for_each xs body s')"

section \<open>The pricer: class \<^verbatim>\<open>BSMmodel\<close>\<close>

text \<open>
  The fields of the class.  The field \<^verbatim>\<open>r\<close> of the source is \<open>rate\<close> here.
\<close>

record BSMmodel =
  Time :: ld
  Spot :: ld
  Strike :: ld
  rate :: ld
  Sigma :: ld
  call :: ld
  put :: ld

definition profit :: "BSMmodel \<Rightarrow> ld \<Rightarrow> char \<Rightarrow> error + ld" where
  "profit m x ty =
     (if \<not> (ty = CHR ''c'' \<or> ty = CHR ''p'') then Inl AssertionFailed
      else if ty = CHR ''c'' then Inr (std_max 0 (x - Strike m))
      else Inr (std_max (Strike m - x) 0))"

text \<open>The local variables of \<^verbatim>\<open>calculatePremiums\<close>.\<close>

record 'g simulation =
  gen :: 'g
  spots :: "ld list"
  call_profits :: "ld list"
  put_profits :: "ld list"
  best_call_profit :: ld
  best_put_profit :: ld

text \<open>The body of the inner loop: path \<open>i\<close> moves one time step.\<close>

definition simulate_path ::
  "'g normal_distribution \<Rightarrow> BSMmodel \<Rightarrow> ld \<Rightarrow> nat \<Rightarrow> 'g simulation \<Rightarrow> error + 'g simulation"
where
  "simulate_path d m dt i s =
     (let prev_price = spots s ! i;
          (log_new_price, g) =
             d (gen s) (ln prev_price + (rate m - Sigma m * Sigma m / 2) * dt)
               (Sigma m * sqrt dt);
          spots' = (spots s)[i := exp log_new_price]
      in case profit m (spots' ! i) CHR ''c'' of
           Inl e \<Rightarrow> Inl e
         | Inr c \<Rightarrow>
             (case profit m (spots' ! i) CHR ''p'' of
                Inl e \<Rightarrow> Inl e
              | Inr p \<Rightarrow>
                  Inr (s\<lparr>gen := g, spots := spots',
                         call_profits := (call_profits s)[i := c],
                         put_profits := (put_profits s)[i := p]\<rparr>)))"

text \<open>The body of the outer loop: one time step of all paths, then the averages.\<close>

definition time_step ::
  "'g normal_distribution \<Rightarrow> BSMmodel \<Rightarrow> ld \<Rightarrow> nat \<Rightarrow> nat \<Rightarrow> 'g simulation \<Rightarrow> error + 'g simulation"
where
  "time_step d m dt simulations_num time s =
     (case for_each [0..<simulations_num] (simulate_path d m dt) s of
        Inl e \<Rightarrow> Inl e
      | Inr s' \<Rightarrow>
          (let call_average = accumulate (call_profits s') 0 / real simulations_num;
               put_average = accumulate (put_profits s') 0 / real simulations_num
           in Inr (s'\<lparr>best_call_profit := std_max (best_call_profit s') call_average,
                       best_put_profit := std_max (best_put_profit s') put_average\<rparr>)))"

text \<open>The local variables before the first time step.\<close>

definition initial_simulation :: "'g \<Rightarrow> BSMmodel \<Rightarrow> nat \<Rightarrow> 'g simulation" where
  "initial_simulation g m simulations_num =
     \<lparr>gen = g,
      spots = replicate simulations_num (Spot m),
      call_profits = replicate simulations_num 0,
      put_profits = replicate simulations_num 0,
      best_call_profit = 0,
      best_put_profit = 0\<rparr>"

text \<open>
  \<^verbatim>\<open>calculatePremiums(simulations_num, time_nums)\<close>.  The two counts are
  \<^verbatim>\<open>int\<close> in the source; the method is private and its one call passes the defaults
  10000 and 100, so the model takes them as natural numbers.  \<open>g\<close> is the generator
  \<^verbatim>\<open>gen{rd()}\<close> that the method creates.
\<close>

definition calculatePremiums ::
  "'g normal_distribution \<Rightarrow> 'g \<Rightarrow> BSMmodel \<Rightarrow> nat \<Rightarrow> nat \<Rightarrow> error + BSMmodel"
where
  "calculatePremiums d g m simulations_num time_nums =
     (let dt = Time m / real time_nums
      in case for_each [1..<Suc time_nums] (time_step d m dt simulations_num)
                (initial_simulation g m simulations_num) of
           Inl e \<Rightarrow> Inl e
         | Inr s \<Rightarrow> Inr (m\<lparr>call := best_call_profit s, put := best_put_profit s\<rparr>))"

text \<open>
  The constructor.  The fields \<^verbatim>\<open>call\<close> and \<^verbatim>\<open>put\<close> hold no value until
  \<^verbatim>\<open>calculatePremiums\<close> assigns them, and nothing reads them before; the model
  starts them at 0.
\<close>

definition BSMmodel_new ::
  "'g normal_distribution \<Rightarrow> 'g \<Rightarrow> ld \<Rightarrow> ld \<Rightarrow> ld \<Rightarrow> ld \<Rightarrow> ld \<Rightarrow> error + BSMmodel"
where
  "BSMmodel_new d g T S K rf sigma =
     calculatePremiums d g
       \<lparr>Time = T, Spot = S, Strike = K, rate = rf, Sigma = sigma, call = 0, put = 0\<rparr>
       10000 100"

definition get_price :: "BSMmodel \<Rightarrow> char \<Rightarrow> error + ld" where
  "get_price m ty =
     (if \<not> (ty = CHR ''c'' \<or> ty = CHR ''p'') then Inl AssertionFailed
      else if ty = CHR ''c'' then Inr (call m)
      else Inr (put m))"

section \<open>The solver: \<^verbatim>\<open>calculateImpliedVolatility\<close>\<close>

text \<open>
  What one pass through the body of the \<^verbatim>\<open>while\<close> loop does: it narrows the
  bracket, returns from the function, or aborts.
\<close>

datatype iteration = Narrow ld ld | Return ld | Abort error

text \<open>
  The body of the loop.  \<open>g\<close> is the generator that the pricer built in this iteration
  creates.  The source calls \<^verbatim>\<open>get_price\<close> once for each comparison.
\<close>

definition bisect_body ::
  "'g normal_distribution \<Rightarrow> 'g \<Rightarrow> ld \<Rightarrow> ld \<Rightarrow> ld \<Rightarrow> ld \<Rightarrow> char \<Rightarrow> ld \<Rightarrow> ld \<Rightarrow> ld \<Rightarrow> iteration"
where
  "bisect_body d g T S K rf ty Premium low_vol high_vol =
     (let mid_vol = ld_div (ld_add low_vol high_vol) 2
      in case BSMmodel_new d g T S K rf mid_vol of
           Inl e \<Rightarrow> Abort e
         | Inr model \<Rightarrow>
             (case get_price model ty of
                Inl e \<Rightarrow> Abort e
              | Inr price \<Rightarrow>
                  if price > Premium then Narrow low_vol mid_vol
                  else (case get_price model ty of
                          Inl e \<Rightarrow> Abort e
                        | Inr price' \<Rightarrow>
                            if price' < Premium then Narrow mid_vol high_vol
                            else Return mid_vol)))"

text \<open>
  The \<^verbatim>\<open>while\<close> loop.  The first argument bounds the number of passes through the
  body: the result is \<open>None\<close> when the loop is still running after that many passes,
  and \<open>Some\<close> of the function's result (a volatility, or the abort) otherwise.
  \<open>gens k\<close> is the generator that the \<open>k\<close>-th pricer from now creates from
  \<^verbatim>\<open>std::random_device\<close>.
\<close>

fun bisect_loop ::
  "nat \<Rightarrow> 'g normal_distribution \<Rightarrow> (nat \<Rightarrow> 'g) \<Rightarrow> ld \<Rightarrow> ld \<Rightarrow> ld \<Rightarrow> ld \<Rightarrow> char \<Rightarrow> ld \<Rightarrow> ld
     \<Rightarrow> ld \<Rightarrow> ld \<Rightarrow> (error + ld) option"
where
  "bisect_loop 0 d gens T S K rf ty Premium tol low_vol high_vol =
     (if ld_sub high_vol low_vol > tol then None else Some (Inr low_vol))"
| "bisect_loop (Suc n) d gens T S K rf ty Premium tol low_vol high_vol =
     (if ld_sub high_vol low_vol > tol then
        (case bisect_body d (gens 0) T S K rf ty Premium low_vol high_vol of
           Narrow low_vol' high_vol' \<Rightarrow>
             bisect_loop n d (\<lambda>k. gens (Suc k)) T S K rf ty Premium tol low_vol' high_vol'
         | Return v \<Rightarrow> Some (Inr v)
         | Abort e \<Rightarrow> Some (Inl e))
      else Some (Inr low_vol))"

definition calculateImpliedVolatility ::
  "nat \<Rightarrow> 'g normal_distribution \<Rightarrow> (nat \<Rightarrow> 'g) \<Rightarrow> ld \<Rightarrow> ld \<Rightarrow> ld \<Rightarrow> ld \<Rightarrow> char \<Rightarrow> ld \<Rightarrow> ld
     \<Rightarrow> (error + ld) option"
where
  "calculateImpliedVolatility n d gens T S K rf ty Premium tol =
     bisect_loop n d gens T S K rf ty Premium tol lit_0_03 6"

text \<open>The default tolerance, \<^verbatim>\<open>ld tol = 1e-5\<close>.\<close>

definition default_tol :: ld where
  "default_tol = lit_1e_5"

section \<open>The simulation, step by step\<close>

text \<open>
  The state of the simulation after \<open>t\<close> passes through the outer loop of
  \<^verbatim>\<open>calculatePremiums\<close>, for a step size \<open>dt\<close>: the loop of the method, stopped
  after \<open>t\<close> time steps.
\<close>

definition simulation_after ::
  "'g normal_distribution \<Rightarrow> 'g \<Rightarrow> BSMmodel \<Rightarrow> ld \<Rightarrow> nat \<Rightarrow> nat \<Rightarrow> error + 'g simulation"
where
  "simulation_after d g m dt simulations_num t =
     for_each [1..<Suc t] (time_step d m dt simulations_num)
       (initial_simulation g m simulations_num)"

text \<open>The path prices after \<open>t\<close> time steps.\<close>

definition spots_at ::
  "'g normal_distribution \<Rightarrow> 'g \<Rightarrow> BSMmodel \<Rightarrow> ld \<Rightarrow> nat \<Rightarrow> nat \<Rightarrow> ld list"
where
  "spots_at d g m dt simulations_num t =
     (case simulation_after d g m dt simulations_num t of
        Inl e \<Rightarrow> [] | Inr s \<Rightarrow> spots s)"

text \<open>
  The average over the paths of the call payoff, and of the put payoff, of the prices
  after \<open>t\<close> time steps.
\<close>

definition call_average_at ::
  "'g normal_distribution \<Rightarrow> 'g \<Rightarrow> BSMmodel \<Rightarrow> ld \<Rightarrow> nat \<Rightarrow> nat \<Rightarrow> ld"
where
  "call_average_at d g m dt simulations_num t =
     (\<Sum>x\<leftarrow>spots_at d g m dt simulations_num t. max (x - Strike m) 0)
       / real simulations_num"

definition put_average_at ::
  "'g normal_distribution \<Rightarrow> 'g \<Rightarrow> BSMmodel \<Rightarrow> ld \<Rightarrow> nat \<Rightarrow> nat \<Rightarrow> ld"
where
  "put_average_at d g m dt simulations_num t =
     (\<Sum>x\<leftarrow>spots_at d g m dt simulations_num t. max (Strike m - x) 0)
       / real simulations_num"

text \<open>
  The draw that moves a path from \<open>prev_price\<close>: the value and the next generator
  state.
\<close>

definition drawn ::
  "'g normal_distribution \<Rightarrow> BSMmodel \<Rightarrow> ld \<Rightarrow> 'g \<Rightarrow> ld \<Rightarrow> ld \<times> 'g"
where
  "drawn d m dt g prev_price =
     d g (ln prev_price + (rate m - Sigma m * Sigma m / 2) * dt) (Sigma m * sqrt dt)"

text \<open>
  What holds of the vectors once the inner loop has passed the first \<open>k\<close> paths.
\<close>

definition paths_inv :: "BSMmodel \<Rightarrow> nat \<Rightarrow> nat \<Rightarrow> 'g simulation \<Rightarrow> bool" where
  "paths_inv m n k s \<longleftrightarrow>
     length (spots s) = n \<and> length (call_profits s) = n \<and> length (put_profits s) = n \<and>
     (\<forall>i<k. call_profits s ! i = max (spots s ! i - Strike m) 0 \<and>
            put_profits s ! i = max (Strike m - spots s ! i) 0)"

section \<open>The path prices as the specification words them\<close>

text \<open>
  The specification, section 4.1: the step size is \<open>dt = T / M\<close>; the \<open>N\<close> path
  prices start at \<open>S\<^sub>0\<close>; at each time step, for each path (in order, from the one
  generator), a value is drawn with mean \<open>log(prevPrice) + (r - sigma\<^sup>2 / 2) * dt\<close>
  and standard deviation \<open>sigma * sqrt dt\<close>, and the path's price becomes the
  exponential of the value drawn.  \<open>spec_advance\<close> is one time step of a list of
  prices, \<open>spec_prices\<close> the prices and the generator after \<open>t\<close> time steps.  The
  two are written from these words, not from the code.
\<close>

fun spec_advance ::
  "'g normal_distribution \<Rightarrow> ld \<Rightarrow> ld \<Rightarrow> ld \<Rightarrow> 'g \<Rightarrow> ld list \<Rightarrow> ld list \<times> 'g"
where
  "spec_advance d rf sigma dt g [] = ([], g)"
| "spec_advance d rf sigma dt g (prevPrice # prices) =
     (let (draw, g') = d g (ln prevPrice + (rf - sigma\<^sup>2 / 2) * dt) (sigma * sqrt dt);
          (prices', g'') = spec_advance d rf sigma dt g' prices
      in (exp draw # prices', g''))"

fun spec_prices ::
  "'g normal_distribution \<Rightarrow> 'g \<Rightarrow> ld \<Rightarrow> ld \<Rightarrow> ld \<Rightarrow> ld \<Rightarrow> nat \<Rightarrow> nat \<Rightarrow> nat \<Rightarrow> ld list \<times> 'g"
where
  "spec_prices d g T S0 rf sigma N M 0 = (replicate N S0, g)"
| "spec_prices d g T S0 rf sigma N M (Suc t) =
     (let (prices, g') = spec_prices d g T S0 rf sigma N M t
      in spec_advance d rf sigma (T / real M) g' prices)"

section \<open>The solver, pass by pass\<close>

text \<open>
  The premium that the solver reads in one pass: the pricer is built at the volatility
  \<open>sigma\<close> and asked for the price of the option type \<open>ty\<close>.
\<close>

definition price_at ::
  "'g normal_distribution \<Rightarrow> 'g \<Rightarrow> ld \<Rightarrow> ld \<Rightarrow> ld \<Rightarrow> ld \<Rightarrow> char \<Rightarrow> ld \<Rightarrow> error + ld"
where
  "price_at d g T S K rf ty sigma =
     (case BSMmodel_new d g T S K rf sigma of
        Inl e \<Rightarrow> Inl e | Inr model \<Rightarrow> get_price model ty)"

text \<open>
  The bracket at the start of pass \<open>k\<close> of the loop (counted from 0): the loop of
  \<open>bisect_loop\<close>, stopped after \<open>k\<close> passes.  It is \<open>None\<close> when the loop
  has ended before.
\<close>

fun bracket_at ::
  "nat \<Rightarrow> 'g normal_distribution \<Rightarrow> (nat \<Rightarrow> 'g) \<Rightarrow> ld \<Rightarrow> ld \<Rightarrow> ld \<Rightarrow> ld \<Rightarrow> char \<Rightarrow> ld \<Rightarrow> ld
     \<Rightarrow> ld \<Rightarrow> ld \<Rightarrow> (ld \<times> ld) option"
where
  "bracket_at 0 d gens T S K rf ty Premium tol low_vol high_vol = Some (low_vol, high_vol)"
| "bracket_at (Suc k) d gens T S K rf ty Premium tol low_vol high_vol =
     (if ld_sub high_vol low_vol > tol then
        (case bisect_body d (gens 0) T S K rf ty Premium low_vol high_vol of
           Narrow low_vol' high_vol' \<Rightarrow>
             bracket_at k d (\<lambda>j. gens (Suc j)) T S K rf ty Premium tol low_vol' high_vol'
         | Return v \<Rightarrow> None
         | Abort e \<Rightarrow> None)
      else None)"

text \<open>
  What the loop keeps true of its bracket: the ends are long doubles, in order, above 0
  and at most 6.
\<close>

definition bracket_ok :: "ld \<Rightarrow> ld \<Rightarrow> bool" where
  "bracket_ok low high \<longleftrightarrow>
     0 < low \<and> low \<le> high \<and> high \<le> 6 \<and> round64 low = low \<and> round64 high = high"

section \<open>Samplers for concrete runs\<close>

text \<open>A sampler without noise: every draw is the mean.\<close>

definition mean_draw :: "unit normal_distribution" where
  "mean_draw g mu sd = (mu, g)"

text \<open>
  A sampler that reads standard normal values \<open>z\<close> from a list and returns
  \<open>mu + sd * z\<close>.
\<close>

definition scripted_draw :: "ld list normal_distribution" where
  "scripted_draw g mu sd = (case g of [] \<Rightarrow> (mu, []) | z # zs \<Rightarrow> (mu + sd * z, zs))"

section \<open>Rounding\<close>

text \<open>
  Facts about \<open>round64\<close> on the numbers that are not negative: it keeps the order, it
  commutes with doubling and halving, it leaves alone the numbers \<open>m * 2\<^sup>k\<close> with
  \<open>m < 2\<^sup>6\<^sup>4\<close> and its own results, and below 16 it moves a number by at most
  \<open>2\<^sup>-\<^sup>6\<^sup>1\<close>.
\<close>

lemma pow2_pos [simp]: "0 < pow2 e"
  by (simp add: pow2_def)

lemma pow2_nonneg [simp]: "0 \<le> pow2 e"
  by (simp add: pow2_def)

lemma pow2_add: "pow2 (a + b) = pow2 a * pow2 b"
  by (simp add: pow2_def powr_add)

lemma pow2_diff: "pow2 (a - b) = pow2 a / pow2 b"
  by (simp add: pow2_def powr_diff)

lemma pow2_0 [simp]: "pow2 0 = 1"
  by (simp add: pow2_def)

lemma pow2_1 [simp]: "pow2 1 = 2"
  by (simp add: pow2_def)

lemma pow2_nat: "pow2 (int n) = 2 ^ n"
  by (simp add: pow2_def powr_realpow)

lemma pow2_neg_nat: "pow2 (- int n) = 1 / 2 ^ n"
  by (simp add: pow2_def powr_minus powr_realpow divide_inverse)

lemma pow2_le_iff [simp]: "pow2 a \<le> pow2 b \<longleftrightarrow> a \<le> b"
  by (simp add: pow2_def)

lemma pow2_less_iff [simp]: "pow2 a < pow2 b \<longleftrightarrow> a < b"
  by (simp add: pow2_def)

lemma pow2_Suc: "pow2 (e + 1) = 2 * pow2 e"
  by (simp add: pow2_add)

lemma binade_bounds:
  assumes "0 < x"
  shows "pow2 (binade x) \<le> x" and "x < pow2 (binade x + 1)"
proof -
  have "\<lfloor>log 2 x\<rfloor> = binade x" using assms by (simp add: binade_def)
  then have "2 powr (binade x) \<le> x \<and> x < 2 powr (binade x + 1)"
    using floor_log_eq_powr_iff [of x 2 "binade x"] assms by simp
  then show "pow2 (binade x) \<le> x" and "x < pow2 (binade x + 1)"
    by (simp_all add: pow2_def)
qed

lemma binade_eq:
  assumes "pow2 e \<le> x" and "x < pow2 (e + 1)"
  shows "binade x = e"
proof -
  have pos: "0 < x" using assms(1) pow2_pos [of e] by linarith
  have "2 powr e \<le> x \<and> x < 2 powr (e + 1)"
    using assms by (simp add: pow2_def)
  then have "\<lfloor>log 2 x\<rfloor> = e"
    using floor_log_eq_powr_iff [of x 2 e] pos by simp
  then show ?thesis using pos by (simp add: binade_def)
qed

lemma binade_mono:
  assumes "0 < x" and "x \<le> y"
  shows "binade x \<le> binade y"
  using assms by (simp add: binade_def floor_mono)

lemma binade_double:
  assumes "0 < x"
  shows "binade (2 * x) = binade x + 1"
proof (rule binade_eq)
  show "pow2 (binade x + 1) \<le> 2 * x"
    using binade_bounds(1) [OF assms] by (simp add: pow2_Suc)
  have "pow2 (binade x + 1 + 1) = 2 * (2 * pow2 (binade x))"
    by (simp only: pow2_Suc)
  then show "2 * x < pow2 (binade x + 1 + 1)"
    using binade_bounds(2) [OF assms] by (simp add: pow2_Suc)
qed

lemma binade_half:
  assumes "0 < x"
  shows "binade (x / 2) = binade x - 1"
  using binade_double [of "x / 2"] assms by simp

lemma round_even_of_int [simp]: "round_even (of_int n) = n"
  by (simp add: round_even_def)

lemma round_even_bounds: "\<lfloor>y\<rfloor> \<le> round_even y" "round_even y \<le> \<lfloor>y\<rfloor> + 1"
  by (simp_all add: round_even_def Let_def)

lemma round_even_error: "\<bar>of_int (round_even y) - y\<bar> \<le> 1 / 2"
proof -
  define f where "f = \<lfloor>y\<rfloor>"
  have b: "of_int f \<le> y" "y < of_int f + 1" unfolding f_def by linarith+
  have "round_even y = f \<and> y - of_int f \<le> 1 / 2 \<or> round_even y = f + 1 \<and> 1 / 2 \<le> y - of_int f"
    unfolding round_even_def Let_def f_def [symmetric] by auto
  then show ?thesis using b by auto
qed

lemma round_even_mono:
  assumes "a \<le> b"
  shows "round_even a \<le> round_even b"
proof (cases "\<lfloor>a\<rfloor> = \<lfloor>b\<rfloor>")
  case True
  then show ?thesis
    using assms by (auto simp add: round_even_def Let_def)
next
  case False
  then have "\<lfloor>a\<rfloor> < \<lfloor>b\<rfloor>" using floor_mono [OF assms] by linarith
  then have "round_even a \<le> \<lfloor>b\<rfloor>" using round_even_bounds(2) [of a] by linarith
  then show ?thesis using round_even_bounds(1) [of b] by linarith
qed

lemma round_even_ge_int:
  assumes "of_int n \<le> y"
  shows "n \<le> round_even y"
  using round_even_mono [OF assms] by simp

lemma round_even_le_int:
  assumes "y \<le> of_int n"
  shows "round_even y \<le> n"
  using round_even_mono [OF assms] by simp

lemma pow2_numeral: "pow2 (numeral n) = 2 ^ numeral n"
  by (simp add: pow2_def powr_numeral)

lemma pow2_neg_numeral: "pow2 (- numeral n) = 1 / 2 ^ numeral n"
proof -
  have "pow2 (- numeral n) = 1 / pow2 (numeral n)"
    by (simp add: pow2_def powr_minus_divide)
  then show ?thesis by (simp only: pow2_numeral)
qed

lemma pow2_nonzero [simp]: "pow2 e \<noteq> 0"
  using pow2_pos [of e] by linarith

lemma round64_pos:
  assumes "0 < x"
  shows "round64 x = pow2 (binade x - 63) * of_int (round_even (x / pow2 (binade x - 63)))"
  using assms by (simp add: round64_def)

lemma scaled_bounds:
  assumes "0 < x"
  shows "2 ^ 63 \<le> x / pow2 (binade x - 63)" and "x / pow2 (binade x - 63) < 2 ^ 64"
proof -
  have u: "pow2 (binade x - 63) = pow2 (binade x) / 2 ^ 63"
    by (simp add: pow2_diff pow2_numeral)
  have p: "0 < pow2 (binade x)" by simp
  from binade_bounds(1) [OF assms] p show "2 ^ 63 \<le> x / pow2 (binade x - 63)"
    unfolding u by (simp add: field_simps)
  from binade_bounds(2) [OF assms] p show "x / pow2 (binade x - 63) < 2 ^ 64"
    unfolding u pow2_Suc by (simp add: field_simps)
qed

lemma round_even_scaled:
  assumes "0 < x"
  shows "2 ^ 63 \<le> round_even (x / pow2 (binade x - 63))"
    and "round_even (x / pow2 (binade x - 63)) \<le> 2 ^ 64"
proof -
  have "of_int (2 ^ 63) \<le> x / pow2 (binade x - 63)"
    using scaled_bounds(1) [OF assms] by simp
  then show "2 ^ 63 \<le> round_even (x / pow2 (binade x - 63))"
    by (rule round_even_ge_int)
  have "x / pow2 (binade x - 63) \<le> of_int (2 ^ 64)"
    using scaled_bounds(2) [OF assms] by simp
  then show "round_even (x / pow2 (binade x - 63)) \<le> 2 ^ 64"
    by (rule round_even_le_int)
qed

lemma round64_range:
  assumes "0 < x"
  shows "pow2 (binade x) \<le> round64 x" and "round64 x \<le> pow2 (binade x + 1)"
proof -
  let ?r = "round_even (x / pow2 (binade x - 63))"
  have u: "pow2 (binade x - 63) = pow2 (binade x) / 2 ^ 63"
    by (simp add: pow2_diff pow2_numeral)
  have lo: "(2::real) ^ 63 \<le> of_int ?r"
    using round_even_scaled(1) [OF assms] by (metis of_int_le_iff of_int_numeral of_int_power)
  have hi: "of_int ?r \<le> (2::real) ^ 64"
    using round_even_scaled(2) [OF assms] by (metis of_int_le_iff of_int_numeral of_int_power)
  have p: "0 < pow2 (binade x)" by simp
  have "pow2 (binade x) * 2 ^ 63 \<le> pow2 (binade x) * of_int ?r"
    using lo p by (simp only: mult_le_cancel_left_pos)
  then show "pow2 (binade x) \<le> round64 x"
    unfolding round64_pos [OF assms] u by (simp add: field_simps)
  have "pow2 (binade x) * of_int ?r \<le> pow2 (binade x) * 2 ^ 64"
    using hi p by (simp only: mult_le_cancel_left_pos)
  then show "round64 x \<le> pow2 (binade x + 1)"
    unfolding round64_pos [OF assms] u pow2_Suc by (simp add: field_simps)
qed

lemma round64_pos_pos:
  assumes "0 < x"
  shows "0 < round64 x"
  using round64_range(1) [OF assms] pow2_pos [of "binade x"] by linarith

lemma round64_0 [simp]: "round64 0 = 0"
  by (simp add: round64_def)

lemma round64_mono:
  assumes "0 \<le> x" and "x \<le> y"
  shows "round64 x \<le> round64 y"
proof (cases "x = 0")
  case True
  show ?thesis
  proof (cases "y = 0")
    case True
    with \<open>x = 0\<close> show ?thesis by simp
  next
    case False
    with assms have "0 < y" by simp
    from round64_pos_pos [OF this] \<open>x = 0\<close> show ?thesis by simp
  qed
next
  case False
  with assms have x: "0 < x" and y: "0 < y" by simp_all
  show ?thesis
  proof (cases "binade x = binade y")
    case True
    have "x / pow2 (binade y - 63) \<le> y / pow2 (binade y - 63)"
      using assms(2) by (intro divide_right_mono) simp_all
    then have "round_even (x / pow2 (binade y - 63)) \<le> round_even (y / pow2 (binade y - 63))"
      by (rule round_even_mono)
    then show ?thesis
      unfolding round64_pos [OF x] round64_pos [OF y] True
      by (simp add: mult_le_cancel_left_pos)
  next
    case False
    with binade_mono [OF x assms(2)] have "binade x + 1 \<le> binade y" by simp
    then have "pow2 (binade x + 1) \<le> pow2 (binade y)" by simp
    with round64_range(2) [OF x] round64_range(1) [OF y] show ?thesis by linarith
  qed
qed

lemma round64_double:
  assumes "0 \<le> x"
  shows "round64 (2 * x) = 2 * round64 x"
proof (cases "x = 0")
  case True
  then show ?thesis by simp
next
  case False
  with assms have x: "0 < x" by simp
  then have x2: "0 < 2 * x" by simp
  have "pow2 (binade x + 1 - 63) = 2 * pow2 (binade x - 63)"
    using pow2_Suc [of "binade x - 63"] by (simp add: algebra_simps)
  then show ?thesis
    unfolding round64_pos [OF x] round64_pos [OF x2] binade_double [OF x]
    by simp
qed

lemma round64_half:
  assumes "0 \<le> x"
  shows "round64 (x / 2) = round64 x / 2"
  using round64_double [of "x / 2"] assms by simp

lemma round64_repr:
  assumes "0 < m" and "m < 2 ^ 64"
  shows "round64 (of_int m * pow2 k) = of_int m * pow2 k"
proof -
  let ?x = "of_int m * pow2 k"
  have x: "0 < ?x" using assms(1) by simp
  have "of_int m < (2::real) ^ 64"
    using assms(2) by (metis of_int_less_iff of_int_numeral of_int_power)
  then have "?x < 2 ^ 64 * pow2 k" by simp
  also have "\<dots> = pow2 (k + 64)" by (simp add: pow2_add pow2_numeral)
  finally have "pow2 (binade ?x) < pow2 (k + 64)"
    using binade_bounds(1) [OF x] by linarith
  then have "binade ?x < k + 64" by simp
  then obtain j :: nat where j: "k - (binade ?x - 63) = int j"
    using nonneg_int_cases [of "k - (binade ?x - 63)"] by auto
  have "?x / pow2 (binade ?x - 63) = of_int m * pow2 (k - (binade ?x - 63))"
    by (simp add: pow2_diff)
  also have "\<dots> = of_int (m * 2 ^ j)"
    unfolding j by (simp add: pow2_nat)
  finally have q: "?x / pow2 (binade ?x - 63) = of_int (m * 2 ^ j)" .
  have "round_even (?x / pow2 (binade ?x - 63)) = m * 2 ^ j"
    unfolding q by (rule round_even_of_int)
  then have "round64 ?x = pow2 (binade ?x - 63) * (?x / pow2 (binade ?x - 63))"
    unfolding round64_pos [OF x] q by simp
  then show ?thesis by simp
qed

lemma round64_pow2: "round64 (pow2 k) = pow2 k"
  using round64_repr [of 1 k] by simp

lemma round64_idem:
  assumes "0 \<le> x"
  shows "round64 (round64 x) = round64 x"
proof (cases "x = 0")
  case True
  then show ?thesis by simp
next
  case False
  with assms have x: "0 < x" by simp
  let ?r = "round_even (x / pow2 (binade x - 63))"
  show ?thesis
  proof (cases "?r = 2 ^ 64")
    case True
    have "round64 x = pow2 (binade x - 63 + 64)"
      unfolding round64_pos [OF x] True pow2_add [of "binade x - 63" 64]
      by (simp add: pow2_numeral)
    then show ?thesis by (simp add: round64_pow2)
  next
    case False
    with round_even_scaled [OF x] have "0 < ?r" "?r < 2 ^ 64" by simp_all
    from round64_repr [OF this, of "binade x - 63"] show ?thesis
      unfolding round64_pos [OF x] by (simp add: mult.commute)
  qed
qed

lemma round64_error:
  assumes "0 < x"
  shows "\<bar>round64 x - x\<bar> \<le> pow2 (binade x - 63) / 2"
proof -
  let ?u = "pow2 (binade x - 63)"
  have "round64 x - x = ?u * (of_int (round_even (x / ?u)) - x / ?u)"
    unfolding round64_pos [OF assms] by (simp add: right_diff_distrib)
  then have "\<bar>round64 x - x\<bar> = ?u * \<bar>of_int (round_even (x / ?u)) - x / ?u\<bar>"
    by (simp add: abs_mult)
  also have "\<dots> \<le> ?u * (1 / 2)"
    using round_even_error [of "x / ?u"] by (simp only: mult_le_cancel_left_pos pow2_pos)
  finally show ?thesis by simp
qed

lemma round64_error_16:
  assumes "0 \<le> x" and "x < 16"
  shows "\<bar>round64 x - x\<bar> \<le> 1 / 2 ^ 61"
proof (cases "x = 0")
  case True
  then show ?thesis by simp
next
  case False
  with assms have x: "0 < x" by simp
  have "pow2 (binade x) < pow2 4"
    using binade_bounds(1) [OF x] assms(2) by (simp add: pow2_numeral)
  then have "binade x - 63 \<le> - 60" by simp
  then have "pow2 (binade x - 63) \<le> pow2 (- 60)" by (simp only: pow2_le_iff)
  then have "pow2 (binade x - 63) / 2 \<le> 1 / 2 ^ 61"
    by (simp add: pow2_neg_numeral)
  with round64_error [OF x] show ?thesis by linarith
qed

section \<open>The payoff\<close>

lemma std_max_eq_max: "std_max a b = max a b"
  by (simp add: std_max_def max_def)

lemma profit_call: "profit m x CHR ''c'' = Inr (max (x - Strike m) 0)"
  by (simp add: profit_def std_max_eq_max max.commute)

lemma profit_put: "profit m x CHR ''p'' = Inr (max (Strike m - x) 0)"
  by (simp add: profit_def std_max_eq_max)

text \<open>
  Claim C1.  For every spot value \<open>x\<close> and strike \<open>K\<close>, \<open>profit\<close> returns
  \<open>max (x - K) 0\<close> for the tag \<open>c\<close> and \<open>max (K - x) 0\<close> for the tag \<open>p\<close>; with
  strike 75 the call payoff at 80 is 5, the put payoff at 70 is 5 and the call payoff
  at 75 is 0.  The function is a function of its arguments alone.
\<close>

theorem C1_payoff:
  "profit (m\<lparr>Strike := K\<rparr>) x CHR ''c'' = Inr (max (x - K) 0)
   \<and> profit (m\<lparr>Strike := K\<rparr>) x CHR ''p'' = Inr (max (K - x) 0)
   \<and> profit (m\<lparr>Strike := 75\<rparr>) 80 CHR ''c'' = Inr 5
   \<and> profit (m\<lparr>Strike := 75\<rparr>) 70 CHR ''p'' = Inr 5
   \<and> profit (m\<lparr>Strike := 75\<rparr>) 75 CHR ''c'' = Inr 0"
  by (simp add: profit_call profit_put)

section \<open>The pricer's loops\<close>

lemma for_each_append:
  "for_each (xs @ ys) body s =
     (case for_each xs body s of Inl e \<Rightarrow> Inl e | Inr s' \<Rightarrow> for_each ys body s')"
  by (induction xs arbitrary: s) (auto split: sum.splits)

lemma accumulate_sum_list: "accumulate xs a = a + sum_list xs"
  unfolding accumulate_def
  by (induction xs arbitrary: a) (simp_all add: add.assoc)

lemma simulate_path_Inr:
  assumes "i < length (spots s)"
  shows "simulate_path d m dt i s =
           Inr (s\<lparr>gen := snd (drawn d m dt (gen s) (spots s ! i)),
                  spots := (spots s)[i := exp (fst (drawn d m dt (gen s) (spots s ! i)))],
                  call_profits := (call_profits s)
                     [i := max (exp (fst (drawn d m dt (gen s) (spots s ! i))) - Strike m) 0],
                  put_profits := (put_profits s)
                     [i := max (Strike m - exp (fst (drawn d m dt (gen s) (spots s ! i)))) 0]\<rparr>)"
  using assms
  by (simp add: simulate_path_def drawn_def profit_call profit_put Let_def split: prod.splits)

text \<open>
  The inner loop over the first \<open>k\<close> paths: it does not abort, the payoffs stored for
  these paths are the payoffs of their new prices, each new price is the exponential of
  a draw made from the old price, and the other paths are untouched.
\<close>

lemma inner_loop:
  assumes "length (spots s) = n" "length (call_profits s) = n" "length (put_profits s) = n"
    and "k \<le> n"
  shows "\<exists>s'. for_each [0..<k] (simulate_path d m dt) s = Inr s' \<and> paths_inv m n k s' \<and>
           best_call_profit s' = best_call_profit s \<and> best_put_profit s' = best_put_profit s \<and>
           (\<forall>i<k. \<exists>g. spots s' ! i = exp (fst (drawn d m dt g (spots s ! i)))) \<and>
           (\<forall>i. k \<le> i \<longrightarrow> spots s' ! i = spots s ! i)"
  using assms(4)
proof (induction k)
  case 0
  then show ?case using assms(1-3) by (simp add: paths_inv_def)
next
  case (Suc k)
  then obtain s1 where s1: "for_each [0..<k] (simulate_path d m dt) s = Inr s1"
    "paths_inv m n k s1" "best_call_profit s1 = best_call_profit s"
    "best_put_profit s1 = best_put_profit s"
    "\<forall>i<k. \<exists>g. spots s1 ! i = exp (fst (drawn d m dt g (spots s ! i)))"
    "\<forall>i. k \<le> i \<longrightarrow> spots s1 ! i = spots s ! i"
    by auto
  have kn: "k < length (spots s1)" "k < length (call_profits s1)" "k < length (put_profits s1)"
    using s1(2) Suc.prems by (simp_all add: paths_inv_def)
  let ?s2 = "s1\<lparr>gen := snd (drawn d m dt (gen s1) (spots s1 ! k)),
                  spots := (spots s1)[k := exp (fst (drawn d m dt (gen s1) (spots s1 ! k)))],
                  call_profits := (call_profits s1)
                     [k := max (exp (fst (drawn d m dt (gen s1) (spots s1 ! k))) - Strike m) 0],
                  put_profits := (put_profits s1)
                     [k := max (Strike m - exp (fst (drawn d m dt (gen s1) (spots s1 ! k)))) 0]\<rparr>"
  have run: "for_each [0..<Suc k] (simulate_path d m dt) s = Inr ?s2"
    using s1(1) simulate_path_Inr [OF kn(1)] by (simp add: for_each_append)
  have inv: "paths_inv m n (Suc k) ?s2"
    using s1(2) kn by (auto simp: paths_inv_def nth_list_update less_Suc_eq)
  have old: "\<forall>i. Suc k \<le> i \<longrightarrow> spots ?s2 ! i = spots s ! i"
    using s1(6) by simp
  have new: "\<forall>i<Suc k. \<exists>g. spots ?s2 ! i = exp (fst (drawn d m dt g (spots s ! i)))"
  proof (intro allI impI)
    fix i assume "i < Suc k"
    show "\<exists>g. spots ?s2 ! i = exp (fst (drawn d m dt g (spots s ! i)))"
    proof (cases "i = k")
      case True
      then show ?thesis using kn(1) s1(6) by auto
    next
      case False
      with \<open>i < Suc k\<close> have "i < k" by simp
      then show ?thesis using s1(5) False by simp
    qed
  qed
  show ?case using run inv old new s1(3,4) by simp
qed

lemma sum_list_nth_map:
  assumes "length ys = length xs" "\<forall>i<length xs. ys ! i = f (xs ! i)"
  shows "ys = map f xs"
  using assms by (simp add: list_eq_iff_nth_eq)

lemma time_step_Inr:
  assumes "length (spots s) = n" "length (call_profits s) = n" "length (put_profits s) = n"
  shows "\<exists>s'. time_step d m dt n time s = Inr s' \<and>
           length (spots s') = n \<and> length (call_profits s') = n \<and>
           length (put_profits s') = n \<and>
           best_call_profit s' =
             max (best_call_profit s) ((\<Sum>x\<leftarrow>spots s'. max (x - Strike m) 0) / real n) \<and>
           best_put_profit s' =
             max (best_put_profit s) ((\<Sum>x\<leftarrow>spots s'. max (Strike m - x) 0) / real n) \<and>
           (\<forall>i<n. \<exists>g. spots s' ! i = exp (fst (drawn d m dt g (spots s ! i))))"
proof -
  obtain s1 where s1: "for_each [0..<n] (simulate_path d m dt) s = Inr s1"
    "paths_inv m n n s1" "best_call_profit s1 = best_call_profit s"
    "best_put_profit s1 = best_put_profit s"
    "\<forall>i<n. \<exists>g. spots s1 ! i = exp (fst (drawn d m dt g (spots s ! i)))"
    using inner_loop [OF assms order_refl, of d m dt] by blast
  have c: "call_profits s1 = map (\<lambda>x. max (x - Strike m) 0) (spots s1)"
    using s1(2) by (intro sum_list_nth_map) (simp_all add: paths_inv_def)
  have p: "put_profits s1 = map (\<lambda>x. max (Strike m - x) 0) (spots s1)"
    using s1(2) by (intro sum_list_nth_map) (simp_all add: paths_inv_def)
  have len: "length (spots s1) = n" "length (call_profits s1) = n" "length (put_profits s1) = n"
    using s1(2) by (simp_all add: paths_inv_def)
  show ?thesis
    using s1(1,3,4,5) len
    by (simp add: time_step_def accumulate_sum_list std_max_eq_max Let_def c [symmetric] p [symmetric])
qed

lemma simulation_after_0:
  "simulation_after d g m dt n 0 = Inr (initial_simulation g m n)"
  by (simp add: simulation_after_def)

lemma simulation_after_Suc:
  "simulation_after d g m dt n (Suc t) =
     (case simulation_after d g m dt n t of
        Inl e \<Rightarrow> Inl e | Inr s \<Rightarrow> time_step d m dt n (Suc t) s)"
proof -
  have "[1..<Suc (Suc t)] = [1..<Suc t] @ [Suc t]" by simp
  then show ?thesis
    unfolding simulation_after_def
    by (simp only: for_each_append) (simp split: sum.splits)
qed

lemma Max_insert0_Suc:
  fixes f :: "nat \<Rightarrow> real"
  shows "Max (insert 0 (f ` {1..Suc t})) = max (Max (insert 0 (f ` {1..t}))) (f (Suc t))"
proof -
  have "{1..Suc t} = insert (Suc t) {1..t}" by auto
  then have "insert 0 (f ` {1..Suc t}) = insert (f (Suc t)) (insert 0 (f ` {1..t}))"
    by auto
  then show ?thesis by (simp add: max.commute)
qed

text \<open>
  After \<open>t\<close> time steps the best averages are the maxima of 0 and the step averages
  so far.
\<close>

lemma simulation_after_Inr:
  "\<exists>s. simulation_after d g m dt n t = Inr s \<and>
        length (spots s) = n \<and> length (call_profits s) = n \<and> length (put_profits s) = n \<and>
        best_call_profit s = Max (insert 0 (call_average_at d g m dt n ` {1..t})) \<and>
        best_put_profit s = Max (insert 0 (put_average_at d g m dt n ` {1..t}))"
proof (induction t)
  case 0
  show ?case by (simp add: simulation_after_0 initial_simulation_def)
next
  case (Suc t)
  then obtain s where s: "simulation_after d g m dt n t = Inr s"
    "length (spots s) = n" "length (call_profits s) = n" "length (put_profits s) = n"
    "best_call_profit s = Max (insert 0 (call_average_at d g m dt n ` {1..t}))"
    "best_put_profit s = Max (insert 0 (put_average_at d g m dt n ` {1..t}))"
    by blast
  obtain s' where s': "time_step d m dt n (Suc t) s = Inr s'"
    "length (spots s') = n" "length (call_profits s') = n" "length (put_profits s') = n"
    "best_call_profit s' =
       max (best_call_profit s) ((\<Sum>x\<leftarrow>spots s'. max (x - Strike m) 0) / real n)"
    "best_put_profit s' =
       max (best_put_profit s) ((\<Sum>x\<leftarrow>spots s'. max (Strike m - x) 0) / real n)"
    using time_step_Inr [OF s(2,3,4), of d m dt "Suc t"] by blast
  have run: "simulation_after d g m dt n (Suc t) = Inr s'"
    using s(1) s'(1) by (simp add: simulation_after_Suc)
  have c: "call_average_at d g m dt n (Suc t) = (\<Sum>x\<leftarrow>spots s'. max (x - Strike m) 0) / real n"
    by (simp add: call_average_at_def spots_at_def run)
  have p: "put_average_at d g m dt n (Suc t) = (\<Sum>x\<leftarrow>spots s'. max (Strike m - x) 0) / real n"
    by (simp add: put_average_at_def spots_at_def run)
  have bc: "best_call_profit s' = Max (insert 0 (call_average_at d g m dt n ` {1..Suc t}))"
    by (simp only: Max_insert0_Suc c s'(5) s(5))
  have bp: "best_put_profit s' = Max (insert 0 (put_average_at d g m dt n ` {1..Suc t}))"
    by (simp only: Max_insert0_Suc p s'(6) s(6))
  show ?case
    using run s'(2,3,4) bc bp by blast
qed

lemma calculatePremiums_Inr:
  "calculatePremiums d g m n M =
     Inr (m\<lparr>call := Max (insert 0 (call_average_at d g m (Time m / real M) n ` {1..M})),
            put := Max (insert 0 (put_average_at d g m (Time m / real M) n ` {1..M}))\<rparr>)"
proof -
  obtain s where s: "simulation_after d g m (Time m / real M) n M = Inr s"
    "best_call_profit s = Max (insert 0 (call_average_at d g m (Time m / real M) n ` {1..M}))"
    "best_put_profit s = Max (insert 0 (put_average_at d g m (Time m / real M) n ` {1..M}))"
    using simulation_after_Inr [of d g m "Time m / real M" n M] by blast
  show ?thesis
    using s(1) unfolding calculatePremiums_def simulation_after_def Let_def
    by (simp add: s(2,3))
qed

lemma spots_at_Suc:
  assumes "i < n"
  shows "\<exists>g'. spots_at d g m dt n (Suc t) ! i =
           exp (fst (drawn d m dt g' (spots_at d g m dt n t ! i)))"
proof -
  obtain s where s: "simulation_after d g m dt n t = Inr s"
    "length (spots s) = n" "length (call_profits s) = n" "length (put_profits s) = n"
    using simulation_after_Inr [of d g m dt n t] by blast
  obtain s' where s': "time_step d m dt n (Suc t) s = Inr s'"
    "\<forall>i<n. \<exists>g. spots s' ! i = exp (fst (drawn d m dt g (spots s ! i)))"
    using time_step_Inr [OF s(2,3,4), of d m dt "Suc t"] by blast
  have "simulation_after d g m dt n (Suc t) = Inr s'"
    using s(1) s'(1) by (simp add: simulation_after_Suc)
  then show ?thesis
    using s(1) s'(2) assms by (simp add: spots_at_def)
qed

section \<open>The premiums\<close>

text \<open>A run of two time steps, written out.\<close>

lemma for_each_steps_2:
  "for_each [1..<Suc 2] body s =
     (case body 1 s of Inl e \<Rightarrow> Inl e | Inr s' \<Rightarrow>
        (case body 2 s' of Inl e \<Rightarrow> Inl e | Inr s'' \<Rightarrow> Inr s''))"
proof -
  have "[1..<Suc 2] = [1, 2]" by (simp add: upt_rec)
  then show ?thesis by (simp split: sum.splits)
qed

text \<open>
  Claim C6.  For every input and every sequence of random draws (every sampler \<open>d\<close>
  and generator \<open>g\<close>), \<^verbatim>\<open>calculatePremiums\<close> returns without abort, and the call
  premium it stores is the maximum of 0 and of the averages over the paths of the call
  payoff after each of the time steps 1 to \<open>time_nums\<close>; likewise the put premium.
  \<open>get_price\<close> returns these two numbers for the pricer that the constructor builds
  (10000 paths, 100 time steps).  No factor \<open>exp (- r * T)\<close> multiplies the maximum,
  and it is not the average after the last step: in the run of one path and two steps
  whose price goes from 1 to 2 and back to 1, with strike 1, rate 1/2 and time 2, the
  call premium is 1 and the average call payoff after the last step is 0.
\<close>

theorem C6_premium_is_best_step_average:
  "calculatePremiums d g m simulations_num time_nums =
     Inr (m\<lparr>call := Max (insert 0
                  (call_average_at d g m (Time m / real time_nums) simulations_num
                     ` {1..time_nums})),
            put := Max (insert 0
                  (put_average_at d g m (Time m / real time_nums) simulations_num
                     ` {1..time_nums}))\<rparr>)
   \<and> (\<exists>model. BSMmodel_new d g T S K rf sigma = Inr model
        \<and> get_price model CHR ''c'' =
            Inr (Max (insert 0
                  (call_average_at d g
                     \<lparr>Time = T, Spot = S, Strike = K, rate = rf, Sigma = sigma,
                      call = 0, put = 0\<rparr> (T / 100) 10000 ` {1..100})))
        \<and> get_price model CHR ''p'' =
            Inr (Max (insert 0
                  (put_average_at d g
                     \<lparr>Time = T, Spot = S, Strike = K, rate = rf, Sigma = sigma,
                      call = 0, put = 0\<rparr> (T / 100) 10000 ` {1..100}))))
   \<and> calculatePremiums scripted_draw [ln 2, - ln 2]
        \<lparr>Time = 2, Spot = 1, Strike = 1, rate = 1 / 2, Sigma = 1, call = 0, put = 0\<rparr> 1 2
      = Inr \<lparr>Time = 2, Spot = 1, Strike = 1, rate = 1 / 2, Sigma = 1, call = 1, put = 0\<rparr>
   \<and> call_average_at scripted_draw [ln 2, - ln 2]
        \<lparr>Time = 2, Spot = 1, Strike = 1, rate = 1 / 2, Sigma = 1, call = 0, put = 0\<rparr>
        (2 / real 2) 1 2 = 0"
proof -
  have best: "calculatePremiums d g m simulations_num time_nums =
     Inr (m\<lparr>call := Max (insert 0
                  (call_average_at d g m (Time m / real time_nums) simulations_num
                     ` {1..time_nums})),
            put := Max (insert 0
                  (put_average_at d g m (Time m / real time_nums) simulations_num
                     ` {1..time_nums}))\<rparr>)"
    by (rule calculatePremiums_Inr)
  have pricer: "\<exists>model. BSMmodel_new d g T S K rf sigma = Inr model
        \<and> get_price model CHR ''c'' =
            Inr (Max (insert 0
                  (call_average_at d g
                     \<lparr>Time = T, Spot = S, Strike = K, rate = rf, Sigma = sigma,
                      call = 0, put = 0\<rparr> (T / 100) 10000 ` {1..100})))
        \<and> get_price model CHR ''p'' =
            Inr (Max (insert 0
                  (put_average_at d g
                     \<lparr>Time = T, Spot = S, Strike = K, rate = rf, Sigma = sigma,
                      call = 0, put = 0\<rparr> (T / 100) 10000 ` {1..100})))"
    by (simp add: calculatePremiums_Inr BSMmodel_new_def get_price_def)
  have run: "calculatePremiums scripted_draw [ln 2, - ln 2]
        \<lparr>Time = 2, Spot = 1, Strike = 1, rate = 1 / 2, Sigma = 1, call = 0, put = 0\<rparr> 1 2
      = Inr \<lparr>Time = 2, Spot = 1, Strike = 1, rate = 1 / 2, Sigma = 1, call = 1, put = 0\<rparr>"
    unfolding calculatePremiums_def Let_def for_each_steps_2
    by (simp add: time_step_def simulate_path_def initial_simulation_def scripted_draw_def
        profit_def std_max_def accumulate_def)
  have last: "call_average_at scripted_draw [ln 2, - ln 2]
        \<lparr>Time = 2, Spot = 1, Strike = 1, rate = 1 / 2, Sigma = 1, call = 0, put = 0\<rparr>
        (2 / real 2) 1 2 = 0"
    unfolding call_average_at_def spots_at_def simulation_after_def for_each_steps_2
    by (simp add: time_step_def simulate_path_def initial_simulation_def scripted_draw_def
        profit_def std_max_def accumulate_def)
  from best pricer run last show ?thesis by (intro conjI)
qed

section \<open>The assertion on the option type\<close>

text \<open>
  Claim C7.  \<open>profit\<close> and \<open>get_price\<close> abort exactly when the tag is neither
  \<open>c\<close> nor \<open>p\<close>: with another tag the assertion fails, and with one of the two tags
  it does not.  Nothing else is checked: building a pricer never aborts, whatever the
  numbers it is given, since \<^verbatim>\<open>calculatePremiums\<close> calls \<open>profit\<close> with the
  two literal tags only.
\<close>

theorem C7_assertion_on_type_tag:
  "(profit m x ty = Inl AssertionFailed) = (\<not> (ty = CHR ''c'' \<or> ty = CHR ''p''))
   \<and> (get_price m ty = Inl AssertionFailed) = (\<not> (ty = CHR ''c'' \<or> ty = CHR ''p''))
   \<and> (\<exists>model. BSMmodel_new d g T S K rf sigma = Inr model)"
  by (simp add: profit_def get_price_def BSMmodel_new_def calculatePremiums_Inr)

section \<open>One step of a path\<close>

text \<open>
  The loops of \<^verbatim>\<open>calculatePremiums\<close>, which update the vector of prices in
  place, compute the prices of the specification: first the inner loop over the first
  \<open>k\<close> paths, then a time step, then the time steps so far.
\<close>

lemma spec_advance_append:
  "spec_advance d rf sigma dt g (xs @ ys) =
     (let (xs', g') = spec_advance d rf sigma dt g xs;
          (ys', g'') = spec_advance d rf sigma dt g' ys
      in (xs' @ ys', g''))"
  by (induction xs arbitrary: g) (simp_all add: Let_def split: prod.splits)

lemma spec_advance_length:
  "length (fst (spec_advance d rf sigma dt g xs)) = length xs"
  by (induction xs arbitrary: g) (simp_all add: Let_def case_prod_beta)

lemma spec_advance_snoc:
  "spec_advance d rf sigma dt g (xs @ [x]) =
     (fst (spec_advance d rf sigma dt g xs)
        @ [exp (fst (d (snd (spec_advance d rf sigma dt g xs))
                      (ln x + (rf - sigma\<^sup>2 / 2) * dt) (sigma * sqrt dt)))],
      snd (d (snd (spec_advance d rf sigma dt g xs))
             (ln x + (rf - sigma\<^sup>2 / 2) * dt) (sigma * sqrt dt)))"
  by (simp add: spec_advance_append Let_def split: prod.splits)

lemma inner_loop_spec:
  assumes "length (spots s) = n" "length (call_profits s) = n" "length (put_profits s) = n"
    and "k \<le> n"
  shows "\<exists>s'. for_each [0..<k] (simulate_path d m dt) s = Inr s' \<and>
           spots s' = fst (spec_advance d (rate m) (Sigma m) dt (gen s) (take k (spots s)))
                        @ drop k (spots s) \<and>
           gen s' = snd (spec_advance d (rate m) (Sigma m) dt (gen s) (take k (spots s)))"
  using assms(4)
proof (induction k)
  case 0
  then show ?case by simp
next
  case (Suc k)
  let ?adv = "spec_advance d (rate m) (Sigma m) dt (gen s) (take k (spots s))"
  from Suc obtain s1 where s1: "for_each [0..<k] (simulate_path d m dt) s = Inr s1"
    "spots s1 = fst ?adv @ drop k (spots s)" "gen s1 = snd ?adv"
    by auto
  have k: "k < length (spots s)" using Suc.prems assms(1) by simp
  have la: "length (fst ?adv) = k"
    using k by (simp add: spec_advance_length)
  have k1: "k < length (spots s1)" using k la s1(2) by simp
  have at: "spots s1 ! k = spots s ! k"
    using k la s1(2) by (simp add: nth_append)
  have upd: "(spots s1)[k := v] = fst ?adv @ [v] @ drop (Suc k) (spots s)" for v
    using k la s1(2) by (simp add: list_update_append Cons_nth_drop_Suc [symmetric])
  have tk: "take (Suc k) (spots s) = take k (spots s) @ [spots s ! k]"
    using k by (simp add: take_Suc_conv_app_nth)
  have run: "for_each [0..<Suc k] (simulate_path d m dt) s = simulate_path d m dt k s1"
    using s1(1) by (simp add: for_each_append split: sum.splits)
  show ?case
    unfolding run simulate_path_Inr [OF k1] tk spec_advance_snoc
    by (simp add: upd at s1(3) drawn_def power2_eq_square)
qed

lemma time_step_spec:
  assumes "length (spots s) = n" "length (call_profits s) = n" "length (put_profits s) = n"
  shows "\<exists>s'. time_step d m dt n time s = Inr s' \<and>
           spots s' = fst (spec_advance d (rate m) (Sigma m) dt (gen s) (spots s)) \<and>
           gen s' = snd (spec_advance d (rate m) (Sigma m) dt (gen s) (spots s))"
proof -
  obtain s1 where s1: "for_each [0..<n] (simulate_path d m dt) s = Inr s1"
    "spots s1 = fst (spec_advance d (rate m) (Sigma m) dt (gen s) (take n (spots s)))
                  @ drop n (spots s)"
    "gen s1 = snd (spec_advance d (rate m) (Sigma m) dt (gen s) (take n (spots s)))"
    using inner_loop_spec [OF assms order_refl, of d m dt] by blast
  then show ?thesis
    using assms(1) by (simp add: time_step_def Let_def)
qed

lemma simulation_after_spec:
  "\<exists>s. simulation_after d g m (Time m / real M) n t = Inr s \<and>
        spots s = fst (spec_prices d g (Time m) (Spot m) (rate m) (Sigma m) n M t) \<and>
        gen s = snd (spec_prices d g (Time m) (Spot m) (rate m) (Sigma m) n M t)"
proof (induction t)
  case 0
  show ?case by (simp add: simulation_after_0 initial_simulation_def)
next
  case (Suc t)
  obtain s where s: "simulation_after d g m (Time m / real M) n t = Inr s"
    "length (spots s) = n" "length (call_profits s) = n" "length (put_profits s) = n"
    using simulation_after_Inr [of d g m "Time m / real M" n t] by blast
  with Suc have sp: "spots s = fst (spec_prices d g (Time m) (Spot m) (rate m) (Sigma m) n M t)"
    "gen s = snd (spec_prices d g (Time m) (Spot m) (rate m) (Sigma m) n M t)"
    by simp_all
  obtain s' where s': "time_step d m (Time m / real M) n (Suc t) s = Inr s'"
    "spots s' = fst (spec_advance d (rate m) (Sigma m) (Time m / real M) (gen s) (spots s))"
    "gen s' = snd (spec_advance d (rate m) (Sigma m) (Time m / real M) (gen s) (spots s))"
    using time_step_spec [OF s(2,3,4), of d m "Time m / real M" "Suc t"] by blast
  have "simulation_after d g m (Time m / real M) n (Suc t) = Inr s'"
    using s(1) s'(1) by (simp add: simulation_after_Suc)
  then show ?case
    using s'(2,3) sp by (simp add: Let_def split: prod.splits)
qed

lemma spots_at_spec:
  "spots_at d g m (Time m / real M) n t =
     fst (spec_prices d g (Time m) (Spot m) (rate m) (Sigma m) n M t)"
  using simulation_after_spec [of d g m M n t] by (auto simp add: spots_at_def)

lemma calculatePremiums_spec:
  "calculatePremiums d g m n M =
     Inr (m\<lparr>call := Max (insert 0
              ((\<lambda>t. (\<Sum>x\<leftarrow>fst (spec_prices d g (Time m) (Spot m) (rate m) (Sigma m) n M t).
                        max (x - Strike m) 0) / real n) ` {1..M})),
            put := Max (insert 0
              ((\<lambda>t. (\<Sum>x\<leftarrow>fst (spec_prices d g (Time m) (Spot m) (rate m) (Sigma m) n M t).
                        max (Strike m - x) 0) / real n) ` {1..M}))\<rparr>)"
proof -
  have c: "call_average_at d g m (Time m / real M) n =
        (\<lambda>t. (\<Sum>x\<leftarrow>fst (spec_prices d g (Time m) (Spot m) (rate m) (Sigma m) n M t).
                        max (x - Strike m) 0) / real n)"
    by (rule ext) (simp add: call_average_at_def spots_at_spec)
  have p: "put_average_at d g m (Time m / real M) n =
        (\<lambda>t. (\<Sum>x\<leftarrow>fst (spec_prices d g (Time m) (Spot m) (rate m) (Sigma m) n M t).
                        max (Strike m - x) 0) / real n)"
    by (rule ext) (simp add: put_average_at_def spots_at_spec)
  show ?thesis
    unfolding calculatePremiums_Inr c p ..
qed

text \<open>
  Claim C8.  The body of the inner loop draws, from the current generator, with mean
  \<open>ln prev_price + (r - Sigma\<^sup>2 / 2) * dt\<close> and standard deviation
  \<open>Sigma * sqrt dt\<close>, and stores the exponential of the value drawn as the new price
  of path \<open>i\<close>.  The pricer runs this body with \<open>dt = Time / time_nums\<close> for
  every path at every time step: the premiums that \<^verbatim>\<open>calculatePremiums\<close> stores,
  and those of the pricer that the constructor builds, are the best step averages of
  the payoffs of the prices \<open>spec_prices\<close>, which advance as the specification says.
\<close>

theorem C8_path_step_is_exp_of_draw:
  assumes "i < length (spots s)"
  shows "(\<exists>s'. simulate_path d m dt i s = Inr s'
            \<and> spots s' =
                (spots s)[i := exp (fst (d (gen s)
                    (ln (spots s ! i) + (rate m - (Sigma m)\<^sup>2 / 2) * dt)
                    (Sigma m * sqrt dt)))]
            \<and> gen s' = snd (d (gen s)
                    (ln (spots s ! i) + (rate m - (Sigma m)\<^sup>2 / 2) * dt)
                    (Sigma m * sqrt dt)))
       \<and> calculatePremiums d g m simulations_num time_nums =
           Inr (m\<lparr>call := Max (insert 0
                    ((\<lambda>t. (\<Sum>x\<leftarrow>fst (spec_prices d g (Time m) (Spot m) (rate m) (Sigma m)
                                       simulations_num time_nums t).
                              max (x - Strike m) 0) / real simulations_num)
                       ` {1..time_nums})),
                  put := Max (insert 0
                    ((\<lambda>t. (\<Sum>x\<leftarrow>fst (spec_prices d g (Time m) (Spot m) (rate m) (Sigma m)
                                       simulations_num time_nums t).
                              max (Strike m - x) 0) / real simulations_num)
                       ` {1..time_nums}))\<rparr>)
       \<and> (\<exists>model. BSMmodel_new d g T S K rf sigma = Inr model
            \<and> call model = Max (insert 0
                    ((\<lambda>t. (\<Sum>x\<leftarrow>fst (spec_prices d g T S rf sigma 10000 100 t).
                              max (x - K) 0) / real 10000) ` {1..100}))
            \<and> put model = Max (insert 0
                    ((\<lambda>t. (\<Sum>x\<leftarrow>fst (spec_prices d g T S rf sigma 10000 100 t).
                              max (K - x) 0) / real 10000) ` {1..100})))"
proof -
  from simulate_path_Inr [OF assms, of d m dt]
  have body: "\<exists>s'. simulate_path d m dt i s = Inr s'
            \<and> spots s' =
                (spots s)[i := exp (fst (d (gen s)
                    (ln (spots s ! i) + (rate m - (Sigma m)\<^sup>2 / 2) * dt)
                    (Sigma m * sqrt dt)))]
            \<and> gen s' = snd (d (gen s)
                    (ln (spots s ! i) + (rate m - (Sigma m)\<^sup>2 / 2) * dt)
                    (Sigma m * sqrt dt))"
    by (simp add: drawn_def power2_eq_square)
  have pricer: "\<exists>model. BSMmodel_new d g T S K rf sigma = Inr model
            \<and> call model = Max (insert 0
                    ((\<lambda>t. (\<Sum>x\<leftarrow>fst (spec_prices d g T S rf sigma 10000 100 t).
                              max (x - K) 0) / real 10000) ` {1..100}))
            \<and> put model = Max (insert 0
                    ((\<lambda>t. (\<Sum>x\<leftarrow>fst (spec_prices d g T S rf sigma 10000 100 t).
                              max (K - x) 0) / real 10000) ` {1..100}))"
    unfolding BSMmodel_new_def calculatePremiums_spec by simp
  from body calculatePremiums_spec [of d g m simulations_num time_nums] pricer
  show ?thesis by (intro conjI)
qed

lemma spec_prices_example:
  "fst (spec_prices scripted_draw [(ln 2 - 2) / 2, (ln 3 - 2) / 2] 4 1 1 1 2 1 (Suc 0)) = [2, 3]"
  by (simp add: scripted_draw_def Let_def numeral_2_eq_2 diff_divide_distrib)

theorem C8_path_step_is_exp_of_draw_witness:
  "(\<exists>s'. simulate_path scripted_draw
            \<lparr>Time = 4, Spot = 1, Strike = 1, rate = 1, Sigma = 1, call = 0, put = 0\<rparr> 4 0
            (initial_simulation [(ln 2 - 2) / 2, (ln 3 - 2) / 2]
               \<lparr>Time = 4, Spot = 1, Strike = 1, rate = 1, Sigma = 1, call = 0, put = 0\<rparr> 2)
          = Inr s' \<and> spots s' = [2, 1] \<and> gen s' = [(ln 3 - 2) / 2])
   \<and> calculatePremiums scripted_draw [(ln 2 - 2) / 2, (ln 3 - 2) / 2]
        \<lparr>Time = 4, Spot = 1, Strike = 1, rate = 1, Sigma = 1, call = 0, put = 0\<rparr> 2 1
      = Inr \<lparr>Time = 4, Spot = 1, Strike = 1, rate = 1, Sigma = 1, call = 3 / 2, put = 0\<rparr>"
proof -
  let ?m = "\<lparr>Time = 4, Spot = 1, Strike = 1, rate = 1, Sigma = 1, call = 0, put = 0\<rparr>"
  let ?g = "[(ln 2 - 2) / 2, (ln 3 - 2) / 2]"
  have i: "0 < length (spots (initial_simulation ?g ?m 2))"
    by (simp add: initial_simulation_def)
  have one: "{1..1::nat} = {1}" by auto
  from C8_path_step_is_exp_of_draw [OF i, of scripted_draw ?m 4 ?g 2 1]
  show ?thesis
    using spec_prices_example
    by (simp add: initial_simulation_def scripted_draw_def one numeral_2_eq_2 diff_divide_distrib)
qed

section \<open>Call and put payoffs together\<close>

text \<open>
  Claim C9.  For every spot value \<open>x\<close> and strike, the call payoff minus the put payoff
  is \<open>x\<close> minus the strike, the smaller of the two payoffs is 0, and neither is
  negative.
\<close>

theorem C9_call_put_payoffs:
  "\<exists>c p. profit m x CHR ''c'' = Inr c \<and> profit m x CHR ''p'' = Inr p
     \<and> c - p = x - Strike m \<and> min c p = 0 \<and> 0 \<le> c \<and> 0 \<le> p"
  by (simp add: profit_call profit_put max_def min_def)

section \<open>The bisection loop\<close>

text \<open>
  The long doubles that the runs below meet are of the form \<open>m / 2\<^sup>j\<close>.
\<close>

lemma round64_dyadic:
  assumes "0 < m" and "m < 2 ^ 64"
  shows "round64 (of_int m / 2 ^ j) = of_int m / 2 ^ j"
  using round64_repr [OF assms, of "- int j"] by (simp add: pow2_neg_nat)

lemma round64_int:
  assumes "0 < m" and "m < 2 ^ 64"
  shows "round64 (of_int m) = of_int m"
  using round64_repr [OF assms, of 0] by simp

lemma round64_lit_0_03 [simp]: "round64 lit_0_03 = lit_0_03"
  unfolding lit_0_03_def
  using round64_dyadic [of 1080863910568919 55] by simp

lemma round64_6 [simp]: "round64 6 = 6"
  using round64_int [of 6] by simp

lemma round64_default_tol [simp]: "round64 default_tol = default_tol"
  unfolding default_tol_def lit_1e_5_def
  using round64_dyadic [of 5902958103587057 69] by simp

lemma lit_0_03_pos [simp]: "0 < lit_0_03"
  by (simp add: lit_0_03_def)

lemma lit_0_03_less [simp]: "lit_0_03 < 3 / 100" "lit_0_03 \<le> 6"
  by (simp_all add: lit_0_03_def)

text \<open>The midpoint that the loop computes.\<close>

lemma mid_vol_eq:
  assumes "0 < low" and "low \<le> high"
  shows "ld_div (ld_add low high) 2 = round64 (low + high) / 2"
proof -
  have "0 \<le> low + high" using assms by simp
  then have "0 \<le> round64 (low + high)"
    using round64_mono [of 0 "low + high"] by simp
  then have "round64 (round64 (low + high) / 2) = round64 (round64 (low + high)) / 2"
    by (rule round64_half)
  also have "\<dots> = round64 (low + high) / 2"
    using \<open>0 \<le> low + high\<close> by (simp add: round64_idem)
  finally show ?thesis by (simp add: ld_div_def ld_add_def)
qed

lemma mid_vol_bounds:
  assumes "0 < low" and "low \<le> high" and "round64 low = low" and "round64 high = high"
  shows "low \<le> ld_div (ld_add low high) 2" and "ld_div (ld_add low high) 2 \<le> high"
proof -
  have "round64 (2 * low) \<le> round64 (low + high)"
    using assms(1,2) by (intro round64_mono) simp_all
  then have "2 * low \<le> round64 (low + high)"
    using assms(1,3) by (simp add: round64_double)
  then show "low \<le> ld_div (ld_add low high) 2"
    unfolding mid_vol_eq [OF assms(1,2)] by simp
  have "round64 (low + high) \<le> round64 (2 * high)"
    using assms(1,2) by (intro round64_mono) simp_all
  then have "round64 (low + high) \<le> 2 * high"
    using assms(1,2,4) by (simp add: round64_double)
  then show "ld_div (ld_add low high) 2 \<le> high"
    unfolding mid_vol_eq [OF assms(1,2)] by simp
qed

lemma mid_vol_representable:
  assumes "0 < low" and "low \<le> high"
  shows "round64 (ld_div (ld_add low high) 2) = ld_div (ld_add low high) 2"
proof -
  have "0 \<le> ld_add low high / 2"
    using round64_mono [of 0 "low + high"] assms by (simp add: ld_add_def)
  then show ?thesis
    unfolding ld_div_def by (rule round64_idem)
qed

lemma mid_vol_error:
  assumes "0 < low" and "low \<le> high" and "high < 8"
  shows "\<bar>ld_div (ld_add low high) 2 - (low + high) / 2\<bar> \<le> 1 / 2 ^ 62"
proof -
  have e: "\<bar>round64 (low + high) - (low + high)\<bar> \<le> 1 / 2 ^ 61"
    using assms by (intro round64_error_16) simp_all
  define r where "r = round64 (low + high)"
  define t where "t = low + high"
  have "\<bar>r / 2 - t / 2\<bar> = \<bar>r - t\<bar> / 2"
    by (simp add: abs_real_def)
  then have "\<bar>round64 (low + high) / 2 - (low + high) / 2\<bar>
               = \<bar>round64 (low + high) - (low + high)\<bar> / 2"
    unfolding r_def t_def .
  also have "\<dots> \<le> (1 / 2 ^ 61) / 2"
    using e by (rule divide_right_mono) simp
  also have "\<dots> = 1 / 2 ^ 62" by simp
  finally show ?thesis
    unfolding mid_vol_eq [OF assms(1,2)] .
qed

lemma bracket_ok_initial: "bracket_ok lit_0_03 6"
  by (simp add: bracket_ok_def)

lemma Max_insert0_nonneg:
  fixes A :: "real set"
  assumes "finite A"
  shows "0 \<le> Max (insert 0 A)"
  using assms by (simp add: Max_ge)

text \<open>
  With a tag \<open>c\<close> or \<open>p\<close> the pricer gives a price, and it is not negative.
\<close>

lemma price_at_valid:
  assumes "ty = CHR ''c'' \<or> ty = CHR ''p''"
  shows "\<exists>p. price_at d g T S K rf ty sigma = Inr p \<and> 0 \<le> p"
  using assms
  unfolding price_at_def BSMmodel_new_def
  by (auto simp add: calculatePremiums_Inr get_price_def Max_insert0_nonneg)

text \<open>
  The price of a put is at most the strike: a path price is an exponential, so a put
  payoff is at most the strike.
\<close>

lemma sum_list_le_length:
  fixes f :: "'a \<Rightarrow> real"
  assumes "\<forall>x\<in>set xs. f x \<le> c"
  shows "sum_list (map f xs) \<le> real (length xs) * c"
  using assms by (induction xs) (auto simp add: algebra_simps)

lemma put_average_le_strike:
  assumes "0 \<le> Strike m"
  shows "put_average_at d g m dt n (Suc t) \<le> Strike m"
proof (cases "n = 0")
  case True
  then show ?thesis using assms by (simp add: put_average_at_def)
next
  case False
  obtain s where s: "simulation_after d g m dt n (Suc t) = Inr s" "length (spots s) = n"
    using simulation_after_Inr [of d g m dt n "Suc t"] by blast
  have len: "length (spots_at d g m dt n (Suc t)) = n"
    using s by (simp add: spots_at_def)
  have "\<forall>x\<in>set (spots_at d g m dt n (Suc t)). max (Strike m - x) 0 \<le> Strike m"
  proof
    fix x assume "x \<in> set (spots_at d g m dt n (Suc t))"
    then obtain i where i: "i < n" "x = spots_at d g m dt n (Suc t) ! i"
      using len by (metis in_set_conv_nth)
    from spots_at_Suc [OF i(1), of d g m dt t] i(2) have "0 < x" by auto
    then show "max (Strike m - x) 0 \<le> Strike m" using assms by simp
  qed
  then have "(\<Sum>x\<leftarrow>spots_at d g m dt n (Suc t). max (Strike m - x) 0) \<le> real n * Strike m"
    using sum_list_le_length [of "spots_at d g m dt n (Suc t)" "\<lambda>x. max (Strike m - x) 0" "Strike m"]
      len by simp
  then show ?thesis
    using False by (simp add: put_average_at_def field_simps)
qed

lemma put_price_le_strike:
  assumes "0 \<le> K"
  shows "\<exists>p. price_at d g T S K rf CHR ''p'' sigma = Inr p \<and> p \<le> K"
proof -
  let ?m = "\<lparr>Time = T, Spot = S, Strike = K, rate = rf, Sigma = sigma, call = 0, put = 0\<rparr>"
  have "put_average_at d g ?m (T / 100) 10000 t \<le> K" if "t \<in> {1..100}" for t
  proof -
    from that obtain u where "t = Suc u" by (cases t) auto
    with put_average_le_strike [of ?m d g "T / 100" 10000 u] assms show ?thesis by simp
  qed
  then have "Max (insert 0 (put_average_at d g ?m (T / 100) 10000 ` {1..100})) \<le> K"
    using assms by (subst Max_le_iff) auto
  then show ?thesis
    unfolding price_at_def BSMmodel_new_def
    by (simp add: calculatePremiums_Inr get_price_def)
qed

text \<open>
  The body of the loop, by the price it reads.
\<close>

lemma bisect_body_price:
  "bisect_body d g T S K rf ty Premium low high =
     (case price_at d g T S K rf ty (ld_div (ld_add low high) 2) of
        Inl e \<Rightarrow> Abort e
      | Inr p \<Rightarrow>
          if p > Premium then Narrow low (ld_div (ld_add low high) 2)
          else if p < Premium then Narrow (ld_div (ld_add low high) 2) high
          else Return (ld_div (ld_add low high) 2))"
  unfolding bisect_body_def price_at_def Let_def
  by (simp split: sum.splits)

lemma bisect_body_Narrow:
  assumes "bisect_body d g T S K rf ty Premium low high = Narrow low' high'"
  shows "(low' = low \<and> high' = ld_div (ld_add low high) 2)
       \<or> (low' = ld_div (ld_add low high) 2 \<and> high' = high)"
  using assms unfolding bisect_body_price
  by (auto split: sum.splits if_splits)

lemma bisect_body_Return:
  assumes "bisect_body d g T S K rf ty Premium low high = Return v"
  shows "v = ld_div (ld_add low high) 2"
  using assms unfolding bisect_body_price
  by (auto split: sum.splits if_splits)

text \<open>
  Two runs whose comparisons are known without running the simulation: with a negative
  observed premium every price is above it, and with an observed premium above the strike
  every put price is below it.
\<close>

lemma bisect_body_above:
  assumes "ty = CHR ''c'' \<or> ty = CHR ''p''" and "Premium < 0"
  shows "bisect_body d g T S K rf ty Premium low high = Narrow low (ld_div (ld_add low high) 2)"
proof -
  obtain p where "price_at d g T S K rf ty (ld_div (ld_add low high) 2) = Inr p" "0 \<le> p"
    using price_at_valid [OF assms(1), of d g T S K rf "ld_div (ld_add low high) 2"] by blast
  then show ?thesis using assms(2) by (simp add: bisect_body_price)
qed

lemma bisect_body_below:
  assumes "0 \<le> K" and "K < Premium"
  shows "bisect_body d g T S K rf CHR ''p'' Premium low high
           = Narrow (ld_div (ld_add low high) 2) high"
proof -
  obtain p where "price_at d g T S K rf CHR ''p'' (ld_div (ld_add low high) 2) = Inr p" "p \<le> K"
    using put_price_le_strike [OF assms(1), of d g T S rf "ld_div (ld_add low high) 2"] by blast
  then show ?thesis using assms(2) by (simp add: bisect_body_price)
qed

text \<open>
  A pass that narrows keeps the bracket in order inside the old one, and the new width is
  half the old one up to the rounding of the midpoint.
\<close>

lemma narrow_ok:
  assumes "bracket_ok low high"
    and "bisect_body d g T S K rf ty Premium low high = Narrow low' high'"
  shows "bracket_ok low' high'" and "low \<le> low'" and "high' \<le> high"
    and "\<bar>(high' - low') - (high - low) / 2\<bar> \<le> 1 / 2 ^ 62"
proof -
  let ?mid = "ld_div (ld_add low high) 2"
  from assms(1) have a: "0 < low" "low \<le> high" "high \<le> 6" "round64 low = low"
    "round64 high = high"
    by (simp_all add: bracket_ok_def)
  have b: "low \<le> ?mid" "?mid \<le> high" using mid_vol_bounds [OF a(1,2,4,5)] by simp_all
  have r: "round64 ?mid = ?mid" using mid_vol_representable [OF a(1,2)] .
  have e: "\<bar>?mid - (low + high) / 2\<bar> \<le> 1 / 2 ^ 62"
    using a by (intro mid_vol_error) simp_all
  from bisect_body_Narrow [OF assms(2)]
  consider "low' = low" "high' = ?mid" | "low' = ?mid" "high' = high" by blast
  then have "bracket_ok low' high' \<and> low \<le> low' \<and> high' \<le> high
             \<and> \<bar>(high' - low') - (high - low) / 2\<bar> \<le> 1 / 2 ^ 62"
  proof cases
    case 1
    have "(?mid - low) - (high - low) / 2 = ?mid - (low + high) / 2"
      by (simp add: field_simps)
    with e have "\<bar>(?mid - low) - (high - low) / 2\<bar> \<le> 1 / 2 ^ 62"
      by (simp only:)
    moreover have "bracket_ok low ?mid"
      using a b r by (simp add: bracket_ok_def)
    ultimately show ?thesis using 1 b by simp
  next
    case 2
    have "(high - ?mid) - (high - low) / 2 = - (?mid - (low + high) / 2)"
      by (simp add: field_simps)
    with e have "\<bar>(high - ?mid) - (high - low) / 2\<bar> \<le> 1 / 2 ^ 62"
      by (simp only: abs_minus_cancel)
    moreover have "bracket_ok ?mid high"
      using a b r by (simp add: bracket_ok_def)
    ultimately show ?thesis using 2 b by simp
  qed
  then show "bracket_ok low' high'" and "low \<le> low'" and "high' \<le> high"
    and "\<bar>(high' - low') - (high - low) / 2\<bar> \<le> 1 / 2 ^ 62"
    by simp_all
qed

lemma bisect_loop_exit:
  assumes "\<not> ld_sub high low > tol"
  shows "bisect_loop n d gens T S K rf ty Premium tol low high = Some (Inr low)"
  using assms by (cases n) simp_all

lemma width_test:
  assumes "low \<le> high" and "high - low \<le> tol" and "round64 tol = tol"
  shows "\<not> ld_sub high low > tol"
proof -
  have "round64 (high - low) \<le> round64 tol"
    using assms(1,2) by (intro round64_mono) simp_all
  then show ?thesis using assms(3) by (simp add: ld_sub_def)
qed

text \<open>
  The loop ends within \<open>n\<close> passes when the width, less \<open>2\<^sup>-\<^sup>6\<^sup>1\<close>, is at most
  \<open>(tol - 2\<^sup>-\<^sup>6\<^sup>1) * 2\<^sup>n\<close>: a pass that goes on halves that quantity.
\<close>

lemma bisect_loop_terminates:
  assumes "round64 tol = tol"
    and "bracket_ok low high"
    and "high - low - 1 / 2 ^ 61 \<le> (tol - 1 / 2 ^ 61) * 2 ^ n"
  shows "\<exists>res. bisect_loop n d gens T S K rf ty Premium tol low high = Some res"
  using assms(2,3)
proof (induction n arbitrary: gens low high)
  case 0
  then have "high - low \<le> tol" by simp
  moreover from 0 have "low \<le> high" by (simp add: bracket_ok_def)
  ultimately have "\<not> ld_sub high low > tol"
    using assms(1) by (intro width_test)
  then show ?case by simp
next
  case (Suc n)
  show ?case
  proof (cases "ld_sub high low > tol")
    case False
    then show ?thesis by simp
  next
    case True
    show ?thesis
    proof (cases "bisect_body d (gens 0) T S K rf ty Premium low high")
      case (Narrow low' high')
      from narrow_ok [OF Suc.prems(1) Narrow]
      have ok: "bracket_ok low' high'"
        and w: "\<bar>(high' - low') - (high - low) / 2\<bar> \<le> 1 / 2 ^ 62"
        by simp_all
      define c :: real where "c = 1 / 2 ^ 61"
      have "(1::real) / 2 ^ 62 = c / 2" by (simp add: c_def)
      with w have "\<bar>(high' - low') - (high - low) / 2\<bar> \<le> c / 2" by (simp only:)
      then have "high' - low' - c \<le> (high - low - c) / 2"
        by (simp add: abs_real_def field_simps split: if_splits)
      also have "\<dots> \<le> ((tol - c) * 2 ^ Suc n) / 2"
        using Suc.prems(2) unfolding c_def by (intro divide_right_mono) simp_all
      finally have "high' - low' - c \<le> (tol - c) * 2 ^ n"
        by simp
      then have "high' - low' - 1 / 2 ^ 61 \<le> (tol - 1 / 2 ^ 61) * 2 ^ n"
        unfolding c_def .
      from Suc.IH [OF ok this, of "\<lambda>k. gens (Suc k)"] True Narrow
      show ?thesis by simp
    next
      case (Return v)
      with True show ?thesis by simp
    next
      case (Abort e)
      with True show ?thesis by simp
    qed
  qed
qed

text \<open>
  With a negative tolerance and a negative observed premium the loop never ends: every
  price is above the premium, and the width of a bracket in order is not negative.
\<close>

lemma no_exit_negative_tolerance:
  assumes "ty = CHR ''c'' \<or> ty = CHR ''p''" and "Premium < 0" and "tol < 0"
    and "bracket_ok low high"
  shows "bisect_loop n d gens T S K rf ty Premium tol low high = None"
  using assms(4)
proof (induction n arbitrary: gens low high)
  case 0
  then have "round64 0 \<le> round64 (high - low)"
    by (intro round64_mono) (simp_all add: bracket_ok_def)
  then show ?case using assms(3) by (simp add: ld_sub_def)
next
  case (Suc n)
  have "round64 0 \<le> round64 (high - low)"
    using Suc.prems by (intro round64_mono) (simp_all add: bracket_ok_def)
  then have w: "ld_sub high low > tol" using assms(3) by (simp add: ld_sub_def)
  have b: "bisect_body d (gens 0) T S K rf ty Premium low high
             = Narrow low (ld_div (ld_add low high) 2)"
    using assms(1,2) by (rule bisect_body_above)
  from narrow_ok(1) [OF Suc.prems b] have "bracket_ok low (ld_div (ld_add low high) 2)" .
  from Suc.IH [OF this, of "\<lambda>k. gens (Suc k)"] w b show ?case by simp
qed

text \<open>
  A result reached within \<open>n\<close> passes is the result for every larger bound: the
  bound only says how long one is ready to wait.
\<close>

lemma bisect_loop_more_fuel:
  assumes "bisect_loop n d gens T S K rf ty Premium tol low high = Some res"
  shows "bisect_loop (n + k) d gens T S K rf ty Premium tol low high = Some res"
  using assms
proof (induction n arbitrary: gens low high)
  case 0
  then show ?case by (simp add: bisect_loop_exit split: if_splits)
next
  case (Suc n)
  then show ?case
    by (auto split: if_splits iteration.splits)
qed

lemma bisect_loop_in_bracket:
  assumes "bisect_loop n d gens T S K rf ty Premium tol low high = Some (Inr v)"
    and "bracket_ok low high"
  shows "low \<le> v \<and> v \<le> high"
  using assms
proof (induction n arbitrary: gens low high)
  case 0
  then show ?case by (simp add: bracket_ok_def split: if_splits)
next
  case (Suc n)
  from Suc.prems(2) have le: "low \<le> high" by (simp add: bracket_ok_def)
  show ?case
  proof (cases "ld_sub high low > tol")
    case False
    with Suc.prems le show ?thesis by simp
  next
    case True
    show ?thesis
    proof (cases "bisect_body d (gens 0) T S K rf ty Premium low high")
      case (Narrow low' high')
      from narrow_ok [OF Suc.prems(2) Narrow]
      have b: "bracket_ok low' high'" "low \<le> low'" "high' \<le> high" by simp_all
      from Suc.prems(1) True Narrow
      have "bisect_loop n d (\<lambda>k. gens (Suc k)) T S K rf ty Premium tol low' high' = Some (Inr v)"
        by simp
      from Suc.IH [OF this b(1)] b(2,3) show ?thesis by simp
    next
      case (Return w)
      from Suc.prems(2) have a: "0 < low" "round64 low = low" "round64 high = high"
        by (simp_all add: bracket_ok_def)
      from bisect_body_Return [OF Return] Suc.prems(1) True Return
      have "v = ld_div (ld_add low high) 2" by simp
      with mid_vol_bounds [OF a(1) le a(2,3)] show ?thesis by simp
    next
      case (Abort e)
      with Suc.prems True show ?thesis by simp
    qed
  qed
qed

lemma bisect_loop_valid_no_abort:
  assumes "ty = CHR ''c'' \<or> ty = CHR ''p''"
  shows "bisect_loop n d gens T S K rf ty Premium tol low high \<noteq> Some (Inl e)"
proof (induction n arbitrary: gens low high)
  case 0
  show ?case by simp
next
  case (Suc n)
  obtain p where p: "price_at d (gens 0) T S K rf ty (ld_div (ld_add low high) 2) = Inr p"
    using price_at_valid [OF assms, of d "gens 0" T S K rf "ld_div (ld_add low high) 2"] by blast
  show ?case
    using Suc.IH p by (simp add: bisect_body_price)
qed

lemma fuel_bound:
  assumes "0 < tol" and "0 < w"
  shows "w \<le> tol * 2 ^ nat \<lceil>log 2 (w / tol)\<rceil>"
proof -
  have pos: "0 < w / tol" using assms by simp
  have "log 2 (w / tol) \<le> real (nat \<lceil>log 2 (w / tol)\<rceil>)"
    by linarith
  then have "2 powr log 2 (w / tol) \<le> 2 powr real (nat \<lceil>log 2 (w / tol)\<rceil>)"
    by simp
  then have "w / tol \<le> 2 ^ nat \<lceil>log 2 (w / tol)\<rceil>"
    using pos by (simp add: powr_realpow)
  then show ?thesis using assms(1) by (simp add: field_simps)
qed

text \<open>One more pass than the exact bound makes up for the rounding of the midpoints.\<close>

lemma fuel_bound_rounded:
  assumes "1 / 2 ^ 60 \<le> tol" and "0 < w"
  shows "w - 1 / 2 ^ 61 \<le> (tol - 1 / 2 ^ 61) * 2 ^ (nat \<lceil>log 2 (w / tol)\<rceil> + 1)"
proof -
  define c :: real where "c = 1 / 2 ^ 61"
  define p :: real where "p = 2 ^ nat \<lceil>log 2 (w / tol)\<rceil>"
  have c: "0 < c" "2 * c \<le> tol" using assms(1) by (simp_all add: c_def)
  then have tol: "0 < tol" by linarith
  have p: "1 \<le> p" by (simp add: p_def)
  have w: "w \<le> tol * p" unfolding p_def using tol assms(2) by (rule fuel_bound)
  have "2 * c * p \<le> tol * p" using c(2) p by (intro mult_right_mono) simp_all
  then have "tol * p \<le> (tol - c) * (2 * p)" by (simp add: algebra_simps)
  with w c(1) have "w - c \<le> (tol - c) * (2 * p)" by linarith
  then show ?thesis unfolding c_def p_def by (simp add: mult.commute)
qed

text \<open>
  The bracket after \<open>k\<close> passes is where the loop stands after \<open>k\<close> passes: the
  loop from the start with \<open>k + n\<close> passes allowed is the loop from that bracket with
  \<open>n\<close>.
\<close>

lemma bracket_at_loop:
  assumes "bracket_at k d gens T S K rf ty Premium tol low0 high0 = Some (low, high)"
  shows "bisect_loop (k + n) d gens T S K rf ty Premium tol low0 high0 =
         bisect_loop n d (\<lambda>j. gens (k + j)) T S K rf ty Premium tol low high"
  using assms
proof (induction k arbitrary: gens low0 high0)
  case 0
  then show ?case by simp
next
  case (Suc k)
  from Suc.prems have w: "ld_sub high0 low0 > tol" by (simp split: if_splits)
  from Suc.prems w obtain l h where
    b: "bisect_body d (gens 0) T S K rf ty Premium low0 high0 = Narrow l h" and
    r: "bracket_at k d (\<lambda>j. gens (Suc j)) T S K rf ty Premium tol l h = Some (low, high)"
    by (auto split: iteration.splits)
  from Suc.IH [OF r] w b show ?case by simp
qed

lemma bracket_at_Suc:
  "bracket_at (Suc k) d gens T S K rf ty Premium tol low0 high0 =
     (case bracket_at k d gens T S K rf ty Premium tol low0 high0 of
        None \<Rightarrow> None
      | Some (low, high) \<Rightarrow>
          if ld_sub high low > tol then
            (case bisect_body d (gens k) T S K rf ty Premium low high of
               Narrow low' high' \<Rightarrow> Some (low', high')
             | Return v \<Rightarrow> None
             | Abort e \<Rightarrow> None)
          else None)"
proof (induction k arbitrary: gens low0 high0)
  case 0
  show ?case by (simp split: iteration.splits)
next
  case (Suc k)
  show ?case
  proof (cases "ld_sub high0 low0 > tol")
    case False
    then show ?thesis by simp
  next
    case True
    show ?thesis
    proof (cases "bisect_body d (gens 0) T S K rf ty Premium low0 high0")
      case (Narrow l h)
      have "bracket_at (Suc (Suc k)) d gens T S K rf ty Premium tol low0 high0 =
            bracket_at (Suc k) d (\<lambda>j. gens (Suc j)) T S K rf ty Premium tol l h"
        using True Narrow by simp
      also have "\<dots> =
        (case bracket_at k d (\<lambda>j. gens (Suc j)) T S K rf ty Premium tol l h of
           None \<Rightarrow> None
         | Some (low, high) \<Rightarrow>
             if ld_sub high low > tol then
               (case bisect_body d (gens (Suc k)) T S K rf ty Premium low high of
                  Narrow low' high' \<Rightarrow> Some (low', high')
                | Return v \<Rightarrow> None
                | Abort e \<Rightarrow> None)
             else None)"
        by (rule Suc.IH)
      also have "bracket_at k d (\<lambda>j. gens (Suc j)) T S K rf ty Premium tol l h =
                 bracket_at (Suc k) d gens T S K rf ty Premium tol low0 high0"
        using True Narrow by simp
      finally show ?thesis .
    next
      case (Return v)
      with True show ?thesis by simp
    next
      case (Abort e)
      with True show ?thesis by simp
    qed
  qed
qed

lemma bracket_at_inv:
  assumes "bracket_at k d gens T S K rf ty Premium tol low0 high0 = Some (low, high)"
    and "bracket_ok low0 high0"
  shows "bracket_ok low high \<and> low0 \<le> low \<and> high \<le> high0"
  using assms
proof (induction k arbitrary: gens low0 high0)
  case 0
  then show ?case by simp
next
  case (Suc k)
  from Suc.prems have w: "ld_sub high0 low0 > tol" by (simp split: if_splits)
  from Suc.prems w obtain l h where
    b: "bisect_body d (gens 0) T S K rf ty Premium low0 high0 = Narrow l h" and
    r: "bracket_at k d (\<lambda>j. gens (Suc j)) T S K rf ty Premium tol l h = Some (low, high)"
    by (auto split: iteration.splits)
  from narrow_ok [OF Suc.prems(2) b]
  have c: "bracket_ok l h" "low0 \<le> l" "h \<le> high0" by simp_all
  from Suc.IH [OF r c(1)] c(2,3) show ?case by simp
qed

lemma default_fuel: "nat \<lceil>log 2 ((6 - lit_0_03) / default_tol)\<rceil> = 20"
proof -
  define q :: real where "q = (6 - lit_0_03) / default_tol"
  have q: "2 ^ 19 < q" "q \<le> 2 ^ 20"
    by (simp_all add: q_def lit_0_03_def default_tol_def lit_1e_5_def)
  then have pos: "0 < q" by simp
  have "19 < log 2 q"
    using q(1) pos by (subst less_log_iff) (simp_all add: powr_numeral)
  moreover have "log 2 q \<le> 20"
    using q(2) pos by (subst log_le_iff) (simp_all add: powr_numeral)
  ultimately have "\<lceil>log 2 q\<rceil> = 20"
    by (intro ceiling_unique) simp_all
  then show ?thesis unfolding q_def by simp
qed

lemma default_terminates:
  "\<exists>res. bisect_loop 20 d gens T S K rf ty Premium default_tol lit_0_03 6 = Some res"
proof -
  have "6 - lit_0_03 - 1 / 2 ^ 61 \<le> (default_tol - 1 / 2 ^ 61) * 2 ^ 20"
    by (simp add: lit_0_03_def default_tol_def lit_1e_5_def)
  with round64_default_tol bracket_ok_initial show ?thesis
    by (rule bisect_loop_terminates)
qed

text \<open>
  Evaluating the operations on concrete brackets.  Below 8 a positive multiple of
  \<open>2\<^sup>-\<^sup>6\<^sup>1\<close> is a long double; between 8 and 16 the long doubles are the multiples of
  \<open>2\<^sup>-\<^sup>6\<^sup>0\<close>.
\<close>

lemma round64_grid:
  assumes "0 < x" and "x < 8" and "x * 2 ^ 61 \<in> \<int>"
  shows "round64 x = x"
proof -
  from assms(3) obtain m :: int where m: "x * 2 ^ 61 = of_int m"
    by (auto elim: Ints_cases)
  have "0 < x * 2 ^ 61" using assms(1) by simp
  then have m0: "0 < m" unfolding m by simp
  have "x * 2 ^ 61 < 8 * 2 ^ 61" using assms(2) by simp
  then have "of_int m < (of_int (2 ^ 64) :: real)" unfolding m by simp
  then have m1: "m < 2 ^ 64" by (simp only: of_int_less_iff)
  have x: "x = of_int m / 2 ^ 61" using m by (simp add: field_simps)
  show ?thesis unfolding x using m0 m1 by (rule round64_dyadic)
qed

lemma round64_binade3:
  assumes "8 \<le> x" and "x < 16"
  shows "round64 x = of_int (round_even (x * 2 ^ 60)) / 2 ^ 60"
proof -
  have "binade x = 3"
    using assms by (intro binade_eq) (simp_all add: pow2_numeral)
  moreover have "0 < x" using assms by simp
  ultimately have "round64 x = pow2 (- 60) * of_int (round_even (x / pow2 (- 60)))"
    by (simp add: round64_pos)
  then show ?thesis by (simp add: pow2_neg_numeral)
qed

lemma mid_below_6:
  assumes "2 \<le> low" and "low \<le> 6"
  shows "ld_div (ld_add low 6) 2 = of_int (round_even ((low + 6) * 2 ^ 60)) / 2 ^ 61"
proof -
  have "ld_div (ld_add low 6) 2 = round64 (low + 6) / 2"
    using assms by (intro mid_vol_eq) simp_all
  also have "round64 (low + 6) = of_int (round_even ((low + 6) * 2 ^ 60)) / 2 ^ 60"
    using assms by (intro round64_binade3) simp_all
  finally show ?thesis by simp
qed

lemma first_mid: "ld_div (ld_add lit_0_03 6) 2 = 217253646024352727 / 2 ^ 56"
proof -
  have "ld_div (ld_add lit_0_03 6) 2 = round64 (lit_0_03 + 6) / 2"
    by (intro mid_vol_eq) simp_all
  also have "round64 (lit_0_03 + 6) = lit_0_03 + 6"
    by (intro round64_grid) (simp_all add: lit_0_03_def)
  finally show ?thesis by (simp add: lit_0_03_def)
qed

lemma ld_sub_grid:
  assumes "low < 6" and "- 2 < low" and "low * 2 ^ 61 \<in> \<int>"
  shows "ld_sub 6 low = 6 - low"
proof -
  have "(6 - low) * 2 ^ 61 = of_int (6 * 2 ^ 61) - low * 2 ^ 61"
    by (simp add: algebra_simps)
  also have "\<dots> \<in> \<int>" using assms(3) by (intro Ints_diff Ints_of_int)
  finally show ?thesis
    unfolding ld_sub_def using assms(1,2) by (intro round64_grid) simp_all
qed

text \<open>
  The run in which every price is below the observed premium (a put, the premium above
  the strike): the lower end moves to the midpoint in every pass.  Its first seventeen
  brackets, for a tolerance below the seventeenth width.
\<close>

lemma first_pass_below:
  assumes "0 \<le> K" and "K < Premium" and "tol < 6 - lit_0_03"
  shows "bracket_at (Suc 0) d gens T S K rf CHR ''p'' Premium tol lit_0_03 6
           = Some (217253646024352727 / 2 ^ 56, 6)"
proof -
  have "ld_sub 6 lit_0_03 = 6 - lit_0_03"
    by (intro ld_sub_grid) (simp_all add: lit_0_03_def)
  then show ?thesis
    using assms by (simp add: bisect_body_below first_mid)
qed

lemma pass_below:
  assumes "bracket_at k d gens T S K rf CHR ''p'' Premium tol lit_0_03 6 = Some (low, 6)"
    and "0 \<le> K" and "K < Premium"
    and "2 \<le> low" and "low < 6" and "low * 2 ^ 61 \<in> \<int>" and "tol < 6 - low"
  shows "bracket_at (Suc k) d gens T S K rf CHR ''p'' Premium tol lit_0_03 6
           = Some (of_int (round_even ((low + 6) * 2 ^ 60)) / 2 ^ 61, 6)"
proof -
  have w: "ld_sub 6 low = 6 - low"
    using assms(4,5,6) by (intro ld_sub_grid) simp_all
  have m: "ld_div (ld_add low 6) 2 = of_int (round_even ((low + 6) * 2 ^ 60)) / 2 ^ 61"
    using assms(4,5) by (intro mid_below_6) simp_all
  show ?thesis
    unfolding bracket_at_Suc assms(1)
    using assms(2,3,7) by (simp add: w m bisect_body_below del: bracket_at.simps)
qed

lemma below_run:
  assumes "0 \<le> K" and "K < Premium" and "tol < 105025350685164 / 2 ^ 61"
  shows "bracket_at 1 d gens T S K rf CHR ''p'' Premium tol lit_0_03 6 = Some (6952116672779287264 / 2 ^ 61, 6)"
    and "bracket_at 2 d gens T S K rf CHR ''p'' Premium tol lit_0_03 6 = Some (10393587364030725488 / 2 ^ 61, 6)"
    and "bracket_at 3 d gens T S K rf CHR ''p'' Premium tol lit_0_03 6 = Some (12114322709656444600 / 2 ^ 61, 6)"
    and "bracket_at 4 d gens T S K rf CHR ''p'' Premium tol lit_0_03 6 = Some (12974690382469304156 / 2 ^ 61, 6)"
    and "bracket_at 5 d gens T S K rf CHR ''p'' Premium tol lit_0_03 6 = Some (13404874218875733934 / 2 ^ 61, 6)"
    and "bracket_at 6 d gens T S K rf CHR ''p'' Premium tol lit_0_03 6 = Some (13619966137078948823 / 2 ^ 61, 6)"
    and "bracket_at 7 d gens T S K rf CHR ''p'' Premium tol lit_0_03 6 = Some (13727512096180556268 / 2 ^ 61, 6)"
    and "bracket_at 8 d gens T S K rf CHR ''p'' Premium tol lit_0_03 6 = Some (13781285075731359990 / 2 ^ 61, 6)"
    and "bracket_at 9 d gens T S K rf CHR ''p'' Premium tol lit_0_03 6 = Some (13808171565506761851 / 2 ^ 61, 6)"
    and "bracket_at 10 d gens T S K rf CHR ''p'' Premium tol lit_0_03 6 = Some (13821614810394462782 / 2 ^ 61, 6)"
    and "bracket_at 11 d gens T S K rf CHR ''p'' Premium tol lit_0_03 6 = Some (13828336432838313247 / 2 ^ 61, 6)"
    and "bracket_at 12 d gens T S K rf CHR ''p'' Premium tol lit_0_03 6 = Some (13831697244060238480 / 2 ^ 61, 6)"
    and "bracket_at 13 d gens T S K rf CHR ''p'' Premium tol lit_0_03 6 = Some (13833377649671201096 / 2 ^ 61, 6)"
    and "bracket_at 14 d gens T S K rf CHR ''p'' Premium tol lit_0_03 6 = Some (13834217852476682404 / 2 ^ 61, 6)"
    and "bracket_at 15 d gens T S K rf CHR ''p'' Premium tol lit_0_03 6 = Some (13834637953879423058 / 2 ^ 61, 6)"
    and "bracket_at 16 d gens T S K rf CHR ''p'' Premium tol lit_0_03 6 = Some (13834848004580793385 / 2 ^ 61, 6)"
    and "bracket_at 17 d gens T S K rf CHR ''p'' Premium tol lit_0_03 6 = Some (13834953029931478548 / 2 ^ 61, 6)"
proof -
  have t: "tol < 6 - lit_0_03" using assms(3) by (simp add: lit_0_03_def)
  note first = first_pass_below [OF assms(1,2) t]
  note pass = pass_below [OF _ assms(1,2)]
  have b1: "bracket_at 1 d gens T S K rf CHR ''p'' Premium tol lit_0_03 6 = Some (6952116672779287264 / 2 ^ 61, 6)"
    using first [of d gens T S rf] by (simp del: bracket_at.simps)
  have b2: "bracket_at 2 d gens T S K rf CHR ''p'' Premium tol lit_0_03 6 = Some (10393587364030725488 / 2 ^ 61, 6)"
    using pass [OF b1] assms(3) by (simp add: round_even_def del: bracket_at.simps One_nat_def)
  have b3: "bracket_at 3 d gens T S K rf CHR ''p'' Premium tol lit_0_03 6 = Some (12114322709656444600 / 2 ^ 61, 6)"
    using pass [OF b2] assms(3) by (simp add: round_even_def del: bracket_at.simps One_nat_def)
  have b4: "bracket_at 4 d gens T S K rf CHR ''p'' Premium tol lit_0_03 6 = Some (12974690382469304156 / 2 ^ 61, 6)"
    using pass [OF b3] assms(3) by (simp add: round_even_def del: bracket_at.simps One_nat_def)
  have b5: "bracket_at 5 d gens T S K rf CHR ''p'' Premium tol lit_0_03 6 = Some (13404874218875733934 / 2 ^ 61, 6)"
    using pass [OF b4] assms(3) by (simp add: round_even_def del: bracket_at.simps One_nat_def)
  have b6: "bracket_at 6 d gens T S K rf CHR ''p'' Premium tol lit_0_03 6 = Some (13619966137078948823 / 2 ^ 61, 6)"
    using pass [OF b5] assms(3) by (simp add: round_even_def del: bracket_at.simps One_nat_def)
  have b7: "bracket_at 7 d gens T S K rf CHR ''p'' Premium tol lit_0_03 6 = Some (13727512096180556268 / 2 ^ 61, 6)"
    using pass [OF b6] assms(3) by (simp add: round_even_def del: bracket_at.simps One_nat_def)
  have b8: "bracket_at 8 d gens T S K rf CHR ''p'' Premium tol lit_0_03 6 = Some (13781285075731359990 / 2 ^ 61, 6)"
    using pass [OF b7] assms(3) by (simp add: round_even_def del: bracket_at.simps One_nat_def)
  have b9: "bracket_at 9 d gens T S K rf CHR ''p'' Premium tol lit_0_03 6 = Some (13808171565506761851 / 2 ^ 61, 6)"
    using pass [OF b8] assms(3) by (simp add: round_even_def del: bracket_at.simps One_nat_def)
  have b10: "bracket_at 10 d gens T S K rf CHR ''p'' Premium tol lit_0_03 6 = Some (13821614810394462782 / 2 ^ 61, 6)"
    using pass [OF b9] assms(3) by (simp add: round_even_def del: bracket_at.simps One_nat_def)
  have b11: "bracket_at 11 d gens T S K rf CHR ''p'' Premium tol lit_0_03 6 = Some (13828336432838313247 / 2 ^ 61, 6)"
    using pass [OF b10] assms(3) by (simp add: round_even_def del: bracket_at.simps One_nat_def)
  have b12: "bracket_at 12 d gens T S K rf CHR ''p'' Premium tol lit_0_03 6 = Some (13831697244060238480 / 2 ^ 61, 6)"
    using pass [OF b11] assms(3) by (simp add: round_even_def del: bracket_at.simps One_nat_def)
  have b13: "bracket_at 13 d gens T S K rf CHR ''p'' Premium tol lit_0_03 6 = Some (13833377649671201096 / 2 ^ 61, 6)"
    using pass [OF b12] assms(3) by (simp add: round_even_def del: bracket_at.simps One_nat_def)
  have b14: "bracket_at 14 d gens T S K rf CHR ''p'' Premium tol lit_0_03 6 = Some (13834217852476682404 / 2 ^ 61, 6)"
    using pass [OF b13] assms(3) by (simp add: round_even_def del: bracket_at.simps One_nat_def)
  have b15: "bracket_at 15 d gens T S K rf CHR ''p'' Premium tol lit_0_03 6 = Some (13834637953879423058 / 2 ^ 61, 6)"
    using pass [OF b14] assms(3) by (simp add: round_even_def del: bracket_at.simps One_nat_def)
  have b16: "bracket_at 16 d gens T S K rf CHR ''p'' Premium tol lit_0_03 6 = Some (13834848004580793385 / 2 ^ 61, 6)"
    using pass [OF b15] assms(3) by (simp add: round_even_def del: bracket_at.simps One_nat_def)
  have b17: "bracket_at 17 d gens T S K rf CHR ''p'' Premium tol lit_0_03 6 = Some (13834953029931478548 / 2 ^ 61, 6)"
    using pass [OF b16] assms(3) by (simp add: round_even_def del: bracket_at.simps One_nat_def)
  show "bracket_at 1 d gens T S K rf CHR ''p'' Premium tol lit_0_03 6 = Some (6952116672779287264 / 2 ^ 61, 6)"
    and "bracket_at 2 d gens T S K rf CHR ''p'' Premium tol lit_0_03 6 = Some (10393587364030725488 / 2 ^ 61, 6)"
    and "bracket_at 3 d gens T S K rf CHR ''p'' Premium tol lit_0_03 6 = Some (12114322709656444600 / 2 ^ 61, 6)"
    and "bracket_at 4 d gens T S K rf CHR ''p'' Premium tol lit_0_03 6 = Some (12974690382469304156 / 2 ^ 61, 6)"
    and "bracket_at 5 d gens T S K rf CHR ''p'' Premium tol lit_0_03 6 = Some (13404874218875733934 / 2 ^ 61, 6)"
    and "bracket_at 6 d gens T S K rf CHR ''p'' Premium tol lit_0_03 6 = Some (13619966137078948823 / 2 ^ 61, 6)"
    and "bracket_at 7 d gens T S K rf CHR ''p'' Premium tol lit_0_03 6 = Some (13727512096180556268 / 2 ^ 61, 6)"
    and "bracket_at 8 d gens T S K rf CHR ''p'' Premium tol lit_0_03 6 = Some (13781285075731359990 / 2 ^ 61, 6)"
    and "bracket_at 9 d gens T S K rf CHR ''p'' Premium tol lit_0_03 6 = Some (13808171565506761851 / 2 ^ 61, 6)"
    and "bracket_at 10 d gens T S K rf CHR ''p'' Premium tol lit_0_03 6 = Some (13821614810394462782 / 2 ^ 61, 6)"
    and "bracket_at 11 d gens T S K rf CHR ''p'' Premium tol lit_0_03 6 = Some (13828336432838313247 / 2 ^ 61, 6)"
    and "bracket_at 12 d gens T S K rf CHR ''p'' Premium tol lit_0_03 6 = Some (13831697244060238480 / 2 ^ 61, 6)"
    and "bracket_at 13 d gens T S K rf CHR ''p'' Premium tol lit_0_03 6 = Some (13833377649671201096 / 2 ^ 61, 6)"
    and "bracket_at 14 d gens T S K rf CHR ''p'' Premium tol lit_0_03 6 = Some (13834217852476682404 / 2 ^ 61, 6)"
    and "bracket_at 15 d gens T S K rf CHR ''p'' Premium tol lit_0_03 6 = Some (13834637953879423058 / 2 ^ 61, 6)"
    and "bracket_at 16 d gens T S K rf CHR ''p'' Premium tol lit_0_03 6 = Some (13834848004580793385 / 2 ^ 61, 6)"
    and "bracket_at 17 d gens T S K rf CHR ''p'' Premium tol lit_0_03 6 = Some (13834953029931478548 / 2 ^ 61, 6)"
    by (fact b1 b2 b3 b4 b5 b6 b7 b8 b9 b10 b11 b12 b13 b14 b15 b16 b17)+
qed

text \<open>
  The first pass of a run with a negative observed premium, and the width it leaves.
\<close>

lemma first_pass_above:
  assumes "ty = CHR ''c'' \<or> ty = CHR ''p''" and "Premium < 0" and "tol < 6 - lit_0_03"
  shows "bracket_at (Suc 0) d gens T S K rf ty Premium tol lit_0_03 6
           = Some (lit_0_03, 217253646024352727 / 2 ^ 56)"
proof -
  have "ld_sub 6 lit_0_03 = 6 - lit_0_03"
    by (intro ld_sub_grid) (simp_all add: lit_0_03_def)
  then show ?thesis
    using assms by (simp add: bisect_body_above first_mid)
qed

lemma first_width_above:
  "ld_sub (217253646024352727 / 2 ^ 56) lit_0_03 = 215091918203214889 / 2 ^ 56"
proof -
  have "(217253646024352727 / 2 ^ 56 - lit_0_03 :: real) = 215091918203214889 / 2 ^ 56"
    by (simp add: lit_0_03_def)
  moreover have "round64 (215091918203214889 / 2 ^ 56) = 215091918203214889 / 2 ^ 56"
    by (intro round64_grid) simp_all
  ultimately show ?thesis by (simp only: ld_sub_def)
qed

lemma one_pass_run:
  assumes "ty = CHR ''c'' \<or> ty = CHR ''p''" and "Premium < 0"
  shows "calculateImpliedVolatility (Suc 0) d gens T S K rf ty Premium 3 = Some (Inr lit_0_03)"
proof -
  have "ld_sub 6 lit_0_03 = 6 - lit_0_03"
    by (intro ld_sub_grid) (simp_all add: lit_0_03_def)
  then have w: "ld_sub 6 lit_0_03 > 3" by (simp add: lit_0_03_def)
  have e: "\<not> ld_sub (ld_div (ld_add lit_0_03 6) 2) lit_0_03 > 3"
    unfolding first_mid first_width_above by simp
  show ?thesis
    unfolding calculateImpliedVolatility_def
    using w e by (simp add: bisect_body_above [OF assms])
qed

section \<open>Termination of the loop\<close>

text \<open>
  Claim C2, amended.  For every tolerance that is a long double and at least
  \<open>2\<^sup>-\<^sup>6\<^sup>0\<close>, and every sequence of comparison outcomes (every sampler \<open>d\<close> and
  every sequence \<open>gens\<close> of generators), the loop of
  \<open>calculateImpliedVolatility\<close> ends within
  \<open>\<lceil>log 2 ((high\<^sub>0 - low\<^sub>0) / tol)\<rceil> + 1\<close> passes (the ceiling counted as 0 when it
  is negative), where \<open>high\<^sub>0 - low\<^sub>0\<close> is \<open>6 - lit_0_03\<close>: a pass returns, aborts,
  or replaces an end of the bracket with the rounded midpoint, which halves the width up
  to \<open>2\<^sup>-\<^sup>6\<^sup>2\<close>.  For the default tolerance the ceiling is 20, and the loop ends
  within 20 passes.
\<close>

theorem C2_termination_bound:
  assumes "round64 tol = tol" and "1 / 2 ^ 60 \<le> tol"
  shows "(\<exists>res. calculateImpliedVolatility (nat \<lceil>log 2 ((6 - lit_0_03) / tol)\<rceil> + 1)
                  d gens T S K rf ty Premium tol = Some res)
       \<and> nat \<lceil>log 2 ((6 - lit_0_03) / default_tol)\<rceil> = 20
       \<and> (\<exists>res. calculateImpliedVolatility 20 d gens T S K rf ty Premium default_tol
                  = Some res)"
proof -
  have "0 < 6 - lit_0_03" by (simp add: lit_0_03_def)
  with assms(2)
  have "6 - lit_0_03 - 1 / 2 ^ 61
          \<le> (tol - 1 / 2 ^ 61) * 2 ^ (nat \<lceil>log 2 ((6 - lit_0_03) / tol)\<rceil> + 1)"
    by (rule fuel_bound_rounded)
  with assms(1) bracket_ok_initial
  have "\<exists>res. bisect_loop (nat \<lceil>log 2 ((6 - lit_0_03) / tol)\<rceil> + 1)
                 d gens T S K rf ty Premium tol lit_0_03 6 = Some res"
    by (rule bisect_loop_terminates)
  then have general: "\<exists>res. calculateImpliedVolatility (nat \<lceil>log 2 ((6 - lit_0_03) / tol)\<rceil> + 1)
                  d gens T S K rf ty Premium tol = Some res"
    by (simp only: calculateImpliedVolatility_def)
  have default: "\<exists>res. calculateImpliedVolatility 20 d gens T S K rf ty Premium default_tol
                  = Some res"
    using default_terminates [of d gens T S K rf ty Premium]
    by (simp only: calculateImpliedVolatility_def)
  from general default default_fuel show ?thesis by blast
qed

theorem C2_termination_bound_witness:
  "(\<exists>res. calculateImpliedVolatility (nat \<lceil>log 2 ((6 - lit_0_03) / (1 / 1024))\<rceil> + 1)
            mean_draw (\<lambda>k. ()) 1 1 1 0 CHR ''p'' (- 1) (1 / 1024) = Some res)
   \<and> nat \<lceil>log 2 ((6 - lit_0_03) / default_tol)\<rceil> = 20
   \<and> (\<exists>res. calculateImpliedVolatility 20 mean_draw (\<lambda>k. ()) 1 1 1 0 CHR ''p'' (- 1) default_tol
            = Some res)"
proof -
  have r: "round64 (1 / 1024) = 1 / 1024"
    by (intro round64_grid) simp_all
  have t: "(1::real) / 2 ^ 60 \<le> 1 / 1024" by simp
  from C2_termination_bound [OF r t] show ?thesis .
qed

text \<open>
  The one more pass is needed.  With the tolerance \<open>(6 - lit_0_03) / 2\<^sup>1\<^sup>7\<close>, which is
  a long double, the bound of the claim is 17 passes (also when \<open>high\<^sub>0 - low\<^sub>0\<close> is read
  as 5.97).  In the run of a put with strike 1 and observed premium 2 every price is below
  the premium; the midpoints of passes 7, 10, 12 and 17 are rounded, and after 17 passes
  the width is still above the tolerance.
\<close>

theorem C2_counterexample:
  "(0::real) < 215091918203214889 / 2 ^ 72
   \<and> round64 (215091918203214889 / 2 ^ 72) = 215091918203214889 / 2 ^ 72
   \<and> \<lceil>log 2 ((6 - lit_0_03) / (215091918203214889 / 2 ^ 72))\<rceil> = 17
   \<and> \<lceil>log 2 ((6 - 3 / 100) / (215091918203214889 / 2 ^ 72))\<rceil> = 17
   \<and> calculateImpliedVolatility 17 mean_draw (\<lambda>k. ()) 1 1 1 0 CHR ''p'' 2
        (215091918203214889 / 2 ^ 72) = None"
proof -
  define tol :: real where "tol = 215091918203214889 / 2 ^ 72"
  have pos: "0 < tol" by (simp add: tol_def)
  have rep: "round64 tol = tol"
    unfolding tol_def using round64_dyadic [of 215091918203214889 72] by simp
  have w0: "6 - lit_0_03 = 215091918203214889 / 2 ^ 55"
    by (simp add: lit_0_03_def)
  have r: "(6 - lit_0_03) / tol = 2 ^ 17"
    unfolding w0 tol_def by simp
  have "log 2 ((2::real) ^ 17) = real 17"
    by (rule log_pow_cancel) simp_all
  then have "log 2 ((6 - lit_0_03) / tol) = real 17"
    by (simp only: r)
  then have l1: "\<lceil>log 2 ((6 - lit_0_03) / tol)\<rceil> = 17" by simp
  define q :: real where "q = (6 - 3 / 100) / tol"
  have q: "2 ^ 16 < q" "q \<le> 2 ^ 17" by (simp_all add: q_def tol_def)
  then have qpos: "0 < q" by simp
  have "16 < log 2 q"
    using q(1) qpos by (subst less_log_iff) (simp_all add: powr_numeral)
  moreover have "log 2 q \<le> 17"
    using q(2) qpos by (subst log_le_iff) (simp_all add: powr_numeral)
  ultimately have "\<lceil>log 2 q\<rceil> = 17"
    by (intro ceiling_unique) simp_all
  then have l2: "\<lceil>log 2 ((6 - 3 / 100) / tol)\<rceil> = 17" by (simp only: q_def)
  have t: "tol < 105025350685164 / 2 ^ 61" by (simp add: tol_def)
  have b: "bracket_at 17 mean_draw (\<lambda>k. ()) 1 1 1 0 CHR ''p'' 2 tol lit_0_03 6
             = Some (13834953029931478548 / 2 ^ 61, 6)"
    using t by (intro below_run) simp_all
  have w: "ld_sub 6 (13834953029931478548 / 2 ^ 61) = 6 - 13834953029931478548 / 2 ^ 61"
    by (intro ld_sub_grid) simp_all
  have g: "ld_sub 6 (13834953029931478548 / 2 ^ 61) > tol"
    unfolding w using t by simp
  have "bisect_loop (17 + 0) mean_draw (\<lambda>k. ()) 1 1 1 0 CHR ''p'' 2 tol lit_0_03 6 =
        bisect_loop 0 mean_draw (\<lambda>j. ()) 1 1 1 0 CHR ''p'' 2 tol
          (13834953029931478548 / 2 ^ 61) 6"
    using bracket_at_loop [OF b, of 0] by simp
  also have "\<dots> = None"
    using g by (simp only: bisect_loop.simps if_True)
  finally have run: "calculateImpliedVolatility 17 mean_draw (\<lambda>k. ()) 1 1 1 0 CHR ''p'' 2 tol = None"
    by (simp add: calculateImpliedVolatility_def)
  from pos rep l1 l2 run show ?thesis unfolding tol_def by (intro conjI)
qed

section \<open>The bracket\<close>

text \<open>
  Claim C3, amended.  At the start of every pass of the loop of
  \<open>calculateImpliedVolatility\<close> (after \<open>k\<close> passes the function goes on as the
  loop from the bracket reached), with bracket \<open>(low, high)\<close> and \<open>mid\<close> the
  midpoint as the loop computes it: \<open>low \<le> mid \<le> high\<close> and \<open>low \<le> high\<close>;
  and when the pass narrows the bracket, the new bracket has its ends in order, lies in
  the old one, its width (exact, and as the loop computes it) is at most the old width,
  and it is half the old width up to \<open>2\<^sup>-\<^sup>6\<^sup>2\<close>.
\<close>

theorem C3_bracket_invariant:
  assumes "bracket_at k d gens T S K rf ty Premium tol lit_0_03 6 = Some (low, high)"
  shows "calculateImpliedVolatility (k + n) d gens T S K rf ty Premium tol =
           bisect_loop n d (\<lambda>j. gens (k + j)) T S K rf ty Premium tol low high
       \<and> low \<le> ld_div (ld_add low high) 2 \<and> ld_div (ld_add low high) 2 \<le> high
       \<and> low \<le> high
       \<and> (\<forall>low' high'.
            bracket_at (Suc k) d gens T S K rf ty Premium tol lit_0_03 6 = Some (low', high')
            \<longrightarrow> low' \<le> high' \<and> low \<le> low' \<and> high' \<le> high
                \<and> high' - low' \<le> high - low
                \<and> ld_sub high' low' \<le> ld_sub high low
                \<and> \<bar>(high' - low') - (high - low) / 2\<bar> \<le> 1 / 2 ^ 62)"
proof -
  from bracket_at_inv [OF assms bracket_ok_initial] have ok: "bracket_ok low high" by simp
  then have a: "0 < low" "low \<le> high" "round64 low = low" "round64 high = high"
    by (simp_all add: bracket_ok_def)
  have next_bracket: "low' \<le> high' \<and> low \<le> low' \<and> high' \<le> high
                \<and> high' - low' \<le> high - low
                \<and> ld_sub high' low' \<le> ld_sub high low
                \<and> \<bar>(high' - low') - (high - low) / 2\<bar> \<le> 1 / 2 ^ 62"
    if "bracket_at (Suc k) d gens T S K rf ty Premium tol lit_0_03 6 = Some (low', high')"
    for low' high'
  proof -
    from that assms
    have "bisect_body d (gens k) T S K rf ty Premium low high = Narrow low' high'"
      unfolding bracket_at_Suc
      by (simp del: bracket_at.simps split: if_splits iteration.splits)
    from narrow_ok [OF ok this]
    have n: "bracket_ok low' high'" "low \<le> low'" "high' \<le> high"
      "\<bar>(high' - low') - (high - low) / 2\<bar> \<le> 1 / 2 ^ 62"
      by simp_all
    from n(1) have le: "low' \<le> high'" by (simp add: bracket_ok_def)
    have w: "high' - low' \<le> high - low" using n(2,3) by simp
    have "round64 (high' - low') \<le> round64 (high - low)"
      using le w by (intro round64_mono) simp_all
    then have "ld_sub high' low' \<le> ld_sub high low" by (simp only: ld_sub_def)
    with le n(2,3,4) w show ?thesis by simp
  qed
  have run: "calculateImpliedVolatility (k + n) d gens T S K rf ty Premium tol =
           bisect_loop n d (\<lambda>j. gens (k + j)) T S K rf ty Premium tol low high"
    unfolding calculateImpliedVolatility_def using assms by (rule bracket_at_loop)
  from run a(2) mid_vol_bounds [OF a] next_bracket show ?thesis by blast
qed

theorem C3_bracket_invariant_witness:
  "bracket_at 6 mean_draw (\<lambda>k. ()) 1 1 1 0 CHR ''p'' 2 default_tol lit_0_03 6
     = Some (13619966137078948823 / 2 ^ 61, 6)
   \<and> calculateImpliedVolatility (6 + 14) mean_draw (\<lambda>k. ()) 1 1 1 0 CHR ''p'' 2 default_tol =
       bisect_loop 14 mean_draw (\<lambda>j. ()) 1 1 1 0 CHR ''p'' 2 default_tol
         (13619966137078948823 / 2 ^ 61) 6
   \<and> bracket_at (Suc 6) mean_draw (\<lambda>k. ()) 1 1 1 0 CHR ''p'' 2 default_tol lit_0_03 6
     = Some (13727512096180556268 / 2 ^ 61, 6)
   \<and> (13619966137078948823 / 2 ^ 61 :: real)
        \<le> ld_div (ld_add (13619966137078948823 / 2 ^ 61) 6) 2
   \<and> ld_div (ld_add (13619966137078948823 / 2 ^ 61) 6) 2 \<le> 6
   \<and> (13727512096180556268 / 2 ^ 61 :: real) \<le> 6
   \<and> (13619966137078948823 / 2 ^ 61 :: real) \<le> 13727512096180556268 / 2 ^ 61
   \<and> (6 - 13727512096180556268 / 2 ^ 61 :: real) \<le> 6 - 13619966137078948823 / 2 ^ 61
   \<and> ld_sub 6 (13727512096180556268 / 2 ^ 61) \<le> ld_sub 6 (13619966137078948823 / 2 ^ 61)
   \<and> \<bar>(6 - 13727512096180556268 / 2 ^ 61) - (6 - 13619966137078948823 / 2 ^ 61) / 2 :: real\<bar>
        \<le> 1 / 2 ^ 62"
proof -
  have t: "default_tol < 105025350685164 / 2 ^ 61"
    by (simp add: default_tol_def lit_1e_5_def)
  have b6: "bracket_at 6 mean_draw (\<lambda>k. ()) 1 1 1 0 CHR ''p'' 2 default_tol lit_0_03 6
     = Some (13619966137078948823 / 2 ^ 61, 6)"
    using t by (intro below_run) simp_all
  have "bracket_at 7 mean_draw (\<lambda>k. ()) 1 1 1 0 CHR ''p'' 2 default_tol lit_0_03 6
     = Some (13727512096180556268 / 2 ^ 61, 6)"
    using t by (intro below_run) simp_all
  then have b7: "bracket_at (Suc 6) mean_draw (\<lambda>k. ()) 1 1 1 0 CHR ''p'' 2 default_tol lit_0_03 6
     = Some (13727512096180556268 / 2 ^ 61, 6)"
    by (simp del: bracket_at.simps)
  from C3_bracket_invariant [OF b6, of 14] b6 b7 show ?thesis by blast
qed

text \<open>
  The width need not halve exactly.  In the run of a put with strike 1 and observed
  premium 2, at the default tolerance, the sum \<open>low + 6\<close> of pass 7 is not a long
  double; its rounding moves the midpoint, and the width after pass 7 is not half the
  width before.
\<close>

theorem C3_counterexample:
  "bracket_at 6 mean_draw (\<lambda>k. ()) 1 1 1 0 CHR ''p'' 2 default_tol lit_0_03 6
     = Some (13619966137078948823 / 2 ^ 61, 6)
   \<and> bracket_at 7 mean_draw (\<lambda>k. ()) 1 1 1 0 CHR ''p'' 2 default_tol lit_0_03 6
     = Some (13727512096180556268 / 2 ^ 61, 6)
   \<and> (6 - 13727512096180556268 / 2 ^ 61 :: real) \<noteq> (6 - 13619966137078948823 / 2 ^ 61) / 2"
proof -
  have t: "default_tol < 105025350685164 / 2 ^ 61"
    by (simp add: default_tol_def lit_1e_5_def)
  have b6: "bracket_at 6 mean_draw (\<lambda>k. ()) 1 1 1 0 CHR ''p'' 2 default_tol lit_0_03 6
     = Some (13619966137078948823 / 2 ^ 61, 6)"
    using t by (intro below_run) simp_all
  have b7: "bracket_at 7 mean_draw (\<lambda>k. ()) 1 1 1 0 CHR ''p'' 2 default_tol lit_0_03 6
     = Some (13727512096180556268 / 2 ^ 61, 6)"
    using t by (intro below_run) simp_all
  have "(6 - 13727512096180556268 / 2 ^ 61 :: real) \<noteq> (6 - 13619966137078948823 / 2 ^ 61) / 2"
    by simp
  with b6 b7 show ?thesis by (intro conjI)
qed

text \<open>
  Claim C4.  In a pass of the loop (the width that the loop computes is above the
  tolerance), let \<open>p\<close> be the price of the requested option type from the pricer built
  at the midpoint.  If \<open>p\<close> is greater than the observed premium, the pass sets
  \<open>high_vol\<close> to the midpoint and the loop goes on; if \<open>p\<close> is less, it sets
  \<open>low_vol\<close> to the midpoint and the loop goes on; if they are equal, the function
  returns the midpoint.
\<close>

theorem C4_iteration_cases:
  assumes "price_at d (gens 0) T S K rf ty (ld_div (ld_add low high) 2) = Inr p"
    and "ld_sub high low > tol"
  shows "(p > Premium \<longrightarrow>
            bisect_body d (gens 0) T S K rf ty Premium low high
              = Narrow low (ld_div (ld_add low high) 2)
            \<and> bisect_loop (Suc n) d gens T S K rf ty Premium tol low high =
                bisect_loop n d (\<lambda>k. gens (Suc k)) T S K rf ty Premium tol
                  low (ld_div (ld_add low high) 2))
       \<and> (p < Premium \<longrightarrow>
            bisect_body d (gens 0) T S K rf ty Premium low high
              = Narrow (ld_div (ld_add low high) 2) high
            \<and> bisect_loop (Suc n) d gens T S K rf ty Premium tol low high =
                bisect_loop n d (\<lambda>k. gens (Suc k)) T S K rf ty Premium tol
                  (ld_div (ld_add low high) 2) high)
       \<and> (p = Premium \<longrightarrow>
            bisect_body d (gens 0) T S K rf ty Premium low high
              = Return (ld_div (ld_add low high) 2)
            \<and> bisect_loop (Suc n) d gens T S K rf ty Premium tol low high =
                Some (Inr (ld_div (ld_add low high) 2)))"
  using assms by (simp add: bisect_body_price)

theorem C4_iteration_cases_witness:
  "bisect_body mean_draw () 1 1 1 0 CHR ''p'' (- 1) lit_0_03 6
     = Narrow lit_0_03 (ld_div (ld_add lit_0_03 6) 2)
   \<and> bisect_loop (Suc 0) mean_draw (\<lambda>k. ()) 1 1 1 0 CHR ''p'' (- 1) 3 lit_0_03 6 =
       bisect_loop 0 mean_draw (\<lambda>k. ()) 1 1 1 0 CHR ''p'' (- 1) 3
         lit_0_03 (ld_div (ld_add lit_0_03 6) 2)
   \<and> ld_div (ld_add lit_0_03 6) 2 = 217253646024352727 / 2 ^ 56"
proof -
  obtain p where p: "price_at mean_draw () 1 1 1 0 CHR ''p'' (ld_div (ld_add lit_0_03 6) 2) = Inr p"
    "0 \<le> p"
    using price_at_valid [of "CHR ''p''" mean_draw "()" 1 1 1 0 "ld_div (ld_add lit_0_03 6) 2"]
    by auto
  have "ld_sub 6 lit_0_03 = 6 - lit_0_03"
    by (intro ld_sub_grid) (simp_all add: lit_0_03_def)
  then have w: "ld_sub 6 lit_0_03 > 3" by (simp add: lit_0_03_def)
  from p(2) have "p > - 1" by simp
  with C4_iteration_cases [of mean_draw "\<lambda>k. ()" 1 1 1 0 "CHR ''p''" lit_0_03 6 p 3 "- 1" 0,
      OF p(1) w] first_mid
  show ?thesis by blast
qed

text \<open>
  Claim C5.  When the loop reaches a bracket \<open>(low, high)\<close> whose width, as the loop
  computes it, is at most the tolerance, after \<open>k\<close> passes none of which returned, the
  function returns \<open>low\<close>.
\<close>

theorem C5_exit_returns_low:
  assumes "bracket_at k d gens T S K rf ty Premium tol lit_0_03 6 = Some (low, high)"
    and "ld_sub high low \<le> tol"
  shows "calculateImpliedVolatility (k + n) d gens T S K rf ty Premium tol = Some (Inr low)"
proof -
  from assms(2) have "\<not> ld_sub high low > tol" by simp
  then have "bisect_loop n d (\<lambda>j. gens (k + j)) T S K rf ty Premium tol low high = Some (Inr low)"
    by (rule bisect_loop_exit)
  with bracket_at_loop [OF assms(1), of n] show ?thesis
    by (simp add: calculateImpliedVolatility_def)
qed

theorem C5_exit_returns_low_witness:
  "bracket_at (Suc 0) mean_draw (\<lambda>k. ()) 1 1 1 0 CHR ''p'' (- 1) 3 lit_0_03 6
     = Some (lit_0_03, 217253646024352727 / 2 ^ 56)
   \<and> ld_sub (217253646024352727 / 2 ^ 56) lit_0_03 \<le> 3
   \<and> calculateImpliedVolatility (Suc 0 + 0) mean_draw (\<lambda>k. ()) 1 1 1 0 CHR ''p'' (- 1) 3
     = Some (Inr lit_0_03)"
proof -
  have b: "bracket_at (Suc 0) mean_draw (\<lambda>k. ()) 1 1 1 0 CHR ''p'' (- 1) 3 lit_0_03 6
     = Some (lit_0_03, 217253646024352727 / 2 ^ 56)"
    by (rule first_pass_above) (simp_all add: lit_0_03_def)
  have w: "ld_sub (217253646024352727 / 2 ^ 56) lit_0_03 \<le> 3"
    unfolding first_width_above by simp
  from C5_exit_returns_low [OF b w, of 0] b w show ?thesis by blast
qed

text \<open>
  Claim C10.  Every volatility that \<open>calculateImpliedVolatility\<close> returns lies in the
  initial bracket, between the literal \<^verbatim>\<open>0.03\<close> as the program has it
  (\<open>lit_0_03\<close>) and 6, whatever the inputs and the draws.  The function does return a
  volatility when the option type is \<open>c\<close> or \<open>p\<close> and the tolerance is a long
  double of at least \<open>2\<^sup>-\<^sup>6\<^sup>0\<close>, within the number of passes of claim C2.
\<close>

theorem C10_result_in_initial_bracket:
  "(calculateImpliedVolatility n d gens T S K rf ty Premium tol = Some (Inr v)
      \<longrightarrow> lit_0_03 \<le> v \<and> v \<le> 6)
   \<and> (round64 tol = tol \<and> 1 / 2 ^ 60 \<le> tol \<and> (ty = CHR ''c'' \<or> ty = CHR ''p'')
      \<longrightarrow> (\<exists>v. calculateImpliedVolatility (nat \<lceil>log 2 ((6 - lit_0_03) / tol)\<rceil> + 1)
                   d gens T S K rf ty Premium tol = Some (Inr v)
               \<and> lit_0_03 \<le> v \<and> v \<le> 6))"
proof (intro conjI impI)
  assume "calculateImpliedVolatility n d gens T S K rf ty Premium tol = Some (Inr v)"
  then have "bisect_loop n d gens T S K rf ty Premium tol lit_0_03 6 = Some (Inr v)"
    by (simp add: calculateImpliedVolatility_def)
  from bisect_loop_in_bracket [OF this bracket_ok_initial]
  show "lit_0_03 \<le> v" and "v \<le> 6" by simp_all
next
  let ?n = "nat \<lceil>log 2 ((6 - lit_0_03) / tol)\<rceil> + 1"
  assume a: "round64 tol = tol \<and> 1 / 2 ^ 60 \<le> tol \<and> (ty = CHR ''c'' \<or> ty = CHR ''p'')"
  have "0 < 6 - lit_0_03" by (simp add: lit_0_03_def)
  with a have "6 - lit_0_03 - 1 / 2 ^ 61 \<le> (tol - 1 / 2 ^ 61) * 2 ^ ?n"
    by (intro fuel_bound_rounded) simp_all
  with a bracket_ok_initial
  obtain res where res: "bisect_loop ?n d gens T S K rf ty Premium tol lit_0_03 6 = Some res"
    using bisect_loop_terminates [of tol lit_0_03 6 ?n d gens T S K rf ty Premium] by blast
  from a have "res \<noteq> Inl AssertionFailed"
    using bisect_loop_valid_no_abort
      [of ty ?n d gens T S K rf Premium tol lit_0_03 6 AssertionFailed] res
    by auto
  then obtain v where v: "res = Inr v"
    by (cases res) (auto, metis error.exhaust)
  from bisect_loop_in_bracket [OF _ bracket_ok_initial, of ?n d gens T S K rf ty Premium tol v]
    res v
  have "lit_0_03 \<le> v \<and> v \<le> 6" by simp
  with res v
  show "\<exists>v. calculateImpliedVolatility ?n d gens T S K rf ty Premium tol = Some (Inr v)
             \<and> lit_0_03 \<le> v \<and> v \<le> 6"
    by (simp add: calculateImpliedVolatility_def)
qed

theorem C10_result_in_initial_bracket_witness:
  "calculateImpliedVolatility (Suc 0) mean_draw (\<lambda>k. ()) 1 1 1 0 CHR ''p'' (- 1) 3
     = Some (Inr lit_0_03)
   \<and> lit_0_03 \<le> lit_0_03 \<and> lit_0_03 \<le> 6
   \<and> (\<exists>v. calculateImpliedVolatility (nat \<lceil>log 2 ((6 - lit_0_03) / default_tol)\<rceil> + 1)
             mean_draw (\<lambda>k. ()) 1 1 1 0 CHR ''p'' (- 1) default_tol = Some (Inr v)
          \<and> lit_0_03 \<le> v \<and> v \<le> 6)"
proof -
  have r: "calculateImpliedVolatility (Suc 0) mean_draw (\<lambda>k. ()) 1 1 1 0 CHR ''p'' (- 1) 3
             = Some (Inr lit_0_03)"
    by (rule one_pass_run) simp_all
  from C10_result_in_initial_bracket
         [of "Suc 0" mean_draw "\<lambda>k. ()" 1 1 1 0 "CHR ''p''" "- 1" 3 lit_0_03] r
  have first: "lit_0_03 \<le> lit_0_03 \<and> lit_0_03 \<le> 6" by blast
  have t: "(1::real) / 2 ^ 60 \<le> default_tol"
    by (simp add: default_tol_def lit_1e_5_def)
  from C10_result_in_initial_bracket
         [of 0 mean_draw "\<lambda>k. ()" 1 1 1 0 "CHR ''p''" "- 1" default_tol 0]
    round64_default_tol t
  have second: "\<exists>v. calculateImpliedVolatility (nat \<lceil>log 2 ((6 - lit_0_03) / default_tol)\<rceil> + 1)
             mean_draw (\<lambda>k. ()) 1 1 1 0 CHR ''p'' (- 1) default_tol = Some (Inr v)
          \<and> lit_0_03 \<le> v \<and> v \<le> 6"
    by simp
  from r first second show ?thesis by blast
qed

end
